theory Spec2Isabelle
  imports Complex_Main "HOL-Library.Log_Nat"
begin

section \<open>TailorBlend PWA icon generator (generate-icons.py)\<close>

text \<open>
  The script builds five square icons: a row-wise gradient between two colours, a
  rounded-corner alpha mask, the monogram TB, saved as PNG. The embedding below follows
  the script function by function. Python values are modelled as follows:
  \<^item> \<open>str\<close> as \<open>string\<close>, each character read as a code point below 256;
  \<^item> \<open>int\<close> as \<open>int\<close>, \<open>float\<close> as the rational a finite double denotes, with the
    rounding of every operation written out;
  \<^item> an exception as the left summand of \<open>error + 'a\<close>;
  \<^item> an object the script mutates (the canvas, the file system, the console) as a value
    passed in and returned.

  The guard around \<open>import PIL\<close> is not modelled.
\<close>

subsection \<open>Exceptions\<close>

text \<open>
  The exceptions a run can raise. The last six are raised by the file system and the
  console; in Python all but \<open>UnicodeEncodeError\<close> are subclasses of \<open>OSError\<close>.
\<close>

datatype error = ValueError | OverflowError | ZeroDivisionError | OSError
  | FileExistsError | FileNotFoundError | NotADirectoryError | IsADirectoryError
  | PermissionError | UnicodeEncodeError

definition bind :: "error + 'a \<Rightarrow> ('a \<Rightarrow> error + 'b) \<Rightarrow> error + 'b" where
  "bind m f = (case m of Inl e \<Rightarrow> Inl e | Inr v \<Rightarrow> f v)"

subsection \<open>The built-in \<open>int(s, 16)\<close>\<close>

text \<open>
  \<open>int(s, 16)\<close> strips surrounding whitespace, reads an optional sign, an optional
  prefix \<open>0x\<close> or \<open>0X\<close> (which one underscore may follow), and then hexadecimal digits
  with single underscores between them. Anything else raises \<open>ValueError\<close>.
\<close>

definition py_isspace :: "char \<Rightarrow> bool" where
  "py_isspace c = (c \<in> set [CHR 0x09, CHR 0x0A, CHR 0x0B, CHR 0x0C, CHR 0x0D, CHR 0x20,
                              CHR 0x85, CHR 0xA0])"

definition digit_value :: "char \<Rightarrow> nat option" where
  "digit_value c = (let n = (of_char c :: nat) in
     if 48 \<le> n \<and> n \<le> 57 then Some (n - 48)
     else if 97 \<le> n \<and> n \<le> 102 then Some (n - 87)
     else if 65 \<le> n \<and> n \<le> 70 then Some (n - 55)
     else None)"

text \<open>
  The digit scan; the flag says that the previous character was an underscore. It
  returns the digits read and the unread rest, or \<open>None\<close> on a doubled or trailing
  underscore.
\<close>

fun scan_digits :: "bool \<Rightarrow> string \<Rightarrow> (nat list \<times> string) option" where
  "scan_digits prev [] = (if prev then None else Some ([], []))"
| "scan_digits prev (c # cs) =
     (if c = CHR ''_'' then (if prev then None else scan_digits True cs)
      else case digit_value c of
             Some d \<Rightarrow> (case scan_digits False cs of
                          None \<Rightarrow> None
                        | Some (ds, rest) \<Rightarrow> Some (d # ds, rest))
           | None \<Rightarrow> (if prev then None else Some ([], c # cs)))"

definition strip_sign :: "string \<Rightarrow> bool \<times> string" where
  "strip_sign s = (case s of
       [] \<Rightarrow> (False, s)
     | c # r \<Rightarrow> if c = CHR ''+'' then (False, r)
                else if c = CHR ''-'' then (True, r) else (False, s))"

definition strip_prefix16 :: "string \<Rightarrow> string" where
  "strip_prefix16 s = (case s of
       a # b # r \<Rightarrow>
         if a = CHR ''0'' \<and> (b = CHR ''x'' \<or> b = CHR ''X'')
         then (case r of [] \<Rightarrow> r | u # r' \<Rightarrow> if u = CHR ''_'' then r' else r)
         else s
     | _ \<Rightarrow> s)"

definition py_int16 :: "string \<Rightarrow> error + int" where
  "py_int16 s =
     (let (neg, s2) = strip_sign (dropWhile py_isspace s);
          s3 = strip_prefix16 s2
      in if take 1 s3 = ''_'' then Inl ValueError
         else case scan_digits False s3 of
                None \<Rightarrow> Inl ValueError
              | Some (ds, rest) \<Rightarrow>
                  if ds = [] then Inl ValueError
                  else if dropWhile py_isspace rest \<noteq> [] then Inl ValueError
                  else Inr ((if neg then - 1 else 1) * int (foldl (\<lambda>a d. 16 * a + d) 0 ds)))"

subsection \<open>Floats\<close>

text \<open>
  A Python \<open>float\<close> is an IEEE 754 binary64 number. A finite one is modelled by the
  rational it denotes (the sign of zero is dropped: nothing in the script observes it).
  Every arithmetic result is rounded to the nearest representable number, ties to the
  even significand: \<open>fl\<close> rounds to 53 significant bits, with the fixed spacing
  \<open>2 powi - 1074\<close> below the smallest normal number, and a rounded magnitude of
  \<open>2 ^ 1024\<close> or more becomes an infinity.
\<close>

datatype pyfloat = Finite rat | Infinity bool | NaN

definition round_half_even :: "rat \<Rightarrow> int" where
  "round_half_even q =
     (let f = \<lfloor>q\<rfloor>; d = q - of_int f in
      if d < 1 / 2 then f
      else if 1 / 2 < d then f + 1
      else if even f then f else f + 1)"

text \<open>The binary exponent \<open>\<lfloor>log\<^sub>2 \<bar>x\<bar>\<rfloor>\<close> of a non-zero rational.\<close>

definition exponent :: "rat \<Rightarrow> int" where
  "exponent x =
     (let (p, q) = quotient_of \<bar>x\<bar>; k = bitlen p - bitlen q in
      if 2 powi k \<le> \<bar>x\<bar> then k else k - 1)"

text \<open>
  The exponent of the last place: 52 below the binary exponent, which is held at
  \<open>- 1022\<close> for subnormal numbers.
\<close>

definition ulp_exp :: "rat \<Rightarrow> int" where
  "ulp_exp x = max (exponent x) (- 1022) - 52"

definition fl :: "rat \<Rightarrow> rat" where
  "fl x =
     (if x = 0 then 0
      else let u = 2 powi ulp_exp x in of_int (round_half_even (x / u)) * u)"

definition to_float :: "rat \<Rightarrow> pyfloat" where
  "to_float x = (let r = fl x in if 2 ^ 1024 \<le> \<bar>r\<bar> then Infinity (r < 0) else Finite r)"

text \<open>\<open>x * y\<close> and \<open>x + y\<close> on floats; neither raises.\<close>

fun fmul :: "pyfloat \<Rightarrow> pyfloat \<Rightarrow> pyfloat" where
  "fmul (Finite x) (Finite y) = to_float (x * y)"
| "fmul (Finite x) (Infinity s) = (if x = 0 then NaN else Infinity (s \<noteq> (x < 0)))"
| "fmul (Infinity s) (Finite y) = (if y = 0 then NaN else Infinity (s \<noteq> (y < 0)))"
| "fmul (Infinity s) (Infinity t) = Infinity (s \<noteq> t)"
| "fmul NaN _ = NaN"
| "fmul _ NaN = NaN"

fun fadd :: "pyfloat \<Rightarrow> pyfloat \<Rightarrow> pyfloat" where
  "fadd (Finite x) (Finite y) = to_float (x + y)"
| "fadd (Finite x) (Infinity s) = Infinity s"
| "fadd (Infinity s) (Finite y) = Infinity s"
| "fadd (Infinity s) (Infinity t) = (if s = t then Infinity s else NaN)"
| "fadd NaN _ = NaN"
| "fadd _ NaN = NaN"

text \<open>
  An \<open>int\<close> operand of a float operation is converted first, which raises
  \<open>OverflowError\<close> when it is too large. \<open>int(x)\<close> of a float truncates toward zero
  and raises on an infinity or a NaN. \<open>a / b\<close> on two \<open>int\<close>s is the correctly
  rounded quotient.
\<close>

definition float_of_int :: "int \<Rightarrow> error + pyfloat" where
  "float_of_int n = (case to_float (of_int n) of
       Finite r \<Rightarrow> Inr (Finite r)
     | _ \<Rightarrow> Inl OverflowError)"

definition trunc :: "rat \<Rightarrow> int" where
  "trunc x = (if 0 \<le> x then \<lfloor>x\<rfloor> else \<lceil>x\<rceil>)"

fun py_int :: "pyfloat \<Rightarrow> error + int" where
  "py_int (Finite x) = Inr (trunc x)"
| "py_int (Infinity s) = Inl OverflowError"
| "py_int NaN = Inl ValueError"

definition truediv :: "int \<Rightarrow> int \<Rightarrow> error + pyfloat" where
  "truediv a b =
     (if b = 0 then Inl ZeroDivisionError
      else case to_float (of_int a / of_int b) of
             Finite r \<Rightarrow> Inr (Finite r)
           | _ \<Rightarrow> Inl OverflowError)"

text \<open>The float literals of the script.\<close>

definition lit_0_45 :: pyfloat where "lit_0_45 = to_float (45 / 100)"
definition lit_0_2 :: pyfloat where "lit_0_2 = to_float (2 / 10)"

text \<open>\<open>n * x\<close> and \<open>n + x\<close> for an \<open>int\<close> \<open>n\<close> and a float \<open>x\<close>.\<close>

definition int_mul_float :: "int \<Rightarrow> pyfloat \<Rightarrow> error + pyfloat" where
  "int_mul_float n x = bind (float_of_int n) (\<lambda>nf. Inr (fmul nf x))"

definition int_add_float :: "int \<Rightarrow> pyfloat \<Rightarrow> error + pyfloat" where
  "int_add_float n x = bind (float_of_int n) (\<lambda>nf. Inr (fadd nf x))"

subsection \<open>Colours\<close>

definition COLOR_START :: string where "COLOR_START = ''#70D1C7''"
definition COLOR_END :: string where "COLOR_END = ''#5bbfb5''"
definition COLOR_TEXT :: string where "COLOR_TEXT = ''#FFFFFF''"

type_synonym rgb = "int \<times> int \<times> int"

text \<open>
  \<open>s.lstrip(chars)\<close> removes every leading character that occurs in \<open>chars\<close>, so
  \<open>hex_color.lstrip('#')\<close> removes every leading \<open>#\<close>; a slice \<open>h[i:i+2]\<close> never
  raises and is \<open>take 2 (drop i h)\<close>.
\<close>

definition lstrip :: "string \<Rightarrow> string \<Rightarrow> string" where
  "lstrip chars s = dropWhile (\<lambda>c. c \<in> set chars) s"

definition hex_to_rgb :: "string \<Rightarrow> error + rgb" where
  "hex_to_rgb hex_color =
     (let h = lstrip ''#'' hex_color in
      bind (py_int16 (take 2 h)) (\<lambda>r.
      bind (py_int16 (take 2 (drop 2 h))) (\<lambda>g.
      bind (py_int16 (take 2 (drop 4 h))) (\<lambda>b.
      Inr (r, g, b)))))"

definition interpolate_color :: "string \<Rightarrow> string \<Rightarrow> pyfloat \<Rightarrow> error + rgb" where
  "interpolate_color color1 color2 factor =
     bind (hex_to_rgb color1) (\<lambda>(r1, g1, b1).
     bind (hex_to_rgb color2) (\<lambda>(r2, g2, b2).
     bind (bind (bind (int_mul_float (r2 - r1) factor) (int_add_float r1)) py_int) (\<lambda>r.
     bind (bind (bind (int_mul_float (g2 - g1) factor) (int_add_float g1)) py_int) (\<lambda>g.
     bind (bind (bind (int_mul_float (b2 - b1) factor) (int_add_float b1)) py_int) (\<lambda>b.
     Inr (r, g, b))))))"

subsection \<open>Images\<close>

text \<open>
  Modelled from the spec: the Pillow library is not part of the repository. An image is
  its width, its height and the value of each pixel; a pixel of the canvas is an RGBA
  quadruple, a pixel of the mask a single value. \<open>Image.new\<close> gives an image of the
  requested dimensions filled with one value, and refuses a negative dimension.
\<close>

type_synonym rgba = "int \<times> int \<times> int \<times> int"

record 'p image =
  width :: int
  height :: int
  pixel :: "int \<Rightarrow> int \<Rightarrow> 'p"

definition Image_new :: "int \<Rightarrow> int \<Rightarrow> 'p \<Rightarrow> error + 'p image" where
  "Image_new w h c =
     (if w < 0 \<or> h < 0 then Inl ValueError
      else Inr \<lparr>width = w, height = h, pixel = (\<lambda>x y. c)\<rparr>)"

definition inside :: "'p image \<Rightarrow> int \<Rightarrow> int \<Rightarrow> bool" where
  "inside img x y = (0 \<le> x \<and> x < width img \<and> 0 \<le> y \<and> y < height img)"

text \<open>
  Modelled from the spec: \<open>draw.line([(x0, y), (x1, y)], fill=color)\<close> of Pillow's
  ImageDraw, for the horizontal segments the script draws. It fills the pixels of row
  \<open>y\<close> from \<open>x0\<close> to \<open>x1\<close>, both included, that lie inside the image, with the colour at
  full opacity; a channel is stored in 8 bits, so a value outside is clipped.
\<close>

definition clip8 :: "int \<Rightarrow> int" where
  "clip8 v = (if v < 0 then 0 else if 255 < v then 255 else v)"

definition draw_line :: "rgba image \<Rightarrow> int \<Rightarrow> int \<Rightarrow> int \<Rightarrow> rgb \<Rightarrow> rgba image" where
  "draw_line img x0 x1 y fill =
     (case fill of (r, g, b) \<Rightarrow>
        img\<lparr>pixel := (\<lambda>x' y'.
          if y' = y \<and> min x0 x1 \<le> x' \<and> x' \<le> max x0 x1 \<and> inside img x' y'
          then (clip8 r, clip8 g, clip8 b, 255)
          else pixel img x' y')\<rparr>)"

text \<open>
  A path is the list of its components. The script prints five kinds of lines, here
  in the order of the source (lines 129, 138, 140, 146 and 147); each of them contains
  a character outside Latin-1 (U+2705, U+1F3A8 or U+1F4C1), so a line is kept as the
  call that prints it, with the values it formats.
\<close>

type_synonym path = "string list"

datatype message =
    Generated string int
  | Icons_directory path
  | Generating
  | All_generated
  | Location path

text \<open>
  What Pillow's rasterisers, the fonts, the operating system and the console of the
  machine do is not fixed by the script; it is a parameter of the model:
  \<^item> \<open>truetype_loads path n\<close>: whether \<open>ImageFont.truetype(path, n)\<close> returns a font
    (it raises otherwise);
  \<^item> \<open>textbbox font text\<close>: the box \<open>draw.textbbox((0, 0), text, font=font)\<close>;
  \<^item> \<open>text_pixel font text (x, y) fill img\<close>: the pixels of \<open>img\<close> after
    \<open>draw.text((x, y), text, fill=fill, font=font)\<close>;
  \<^item> \<open>rounded_covers (x0, y0) (x1, y1) radius x y\<close>: whether \<open>draw.rounded_rectangle\<close>
    with that box and radius fills pixel \<open>(x, y)\<close>;
  \<^item> \<open>os_error path\<close>: the exception with which the operating system refuses to create
    or to write \<open>path\<close> (a missing permission, a full disk, a read-only file system),
    \<open>None\<close> when it allows it;
  \<^item> \<open>stdout_error m\<close>: the exception \<open>print\<close> raises on the line \<open>m\<close> (a
    \<open>UnicodeEncodeError\<close> when the encoding of the console lacks one of its characters,
    an \<open>OSError\<close> when the stream is closed), \<open>None\<close> when the line is written.

  Measuring and drawing text are taken to succeed with every font, and
  \<open>ImageFont.load_default()\<close> to return its font (\<open>DefaultFont\<close>) on every machine.
\<close>

datatype font = TrueType string int | DefaultFont

record env =
  truetype_loads :: "string \<Rightarrow> int \<Rightarrow> bool"
  textbbox :: "font \<Rightarrow> string \<Rightarrow> int \<times> int \<times> int \<times> int"
  text_pixel :: "font \<Rightarrow> string \<Rightarrow> int \<times> int \<Rightarrow> rgb \<Rightarrow> rgba image \<Rightarrow> int \<Rightarrow> int \<Rightarrow> rgba"
  rounded_covers :: "int \<times> int \<Rightarrow> int \<times> int \<Rightarrow> int \<Rightarrow> int \<Rightarrow> int \<Rightarrow> bool"
  os_error :: "path \<Rightarrow> error option"
  stdout_error :: "message \<Rightarrow> error option"

definition rounded_rectangle ::
    "env \<Rightarrow> int image \<Rightarrow> int \<times> int \<Rightarrow> int \<times> int \<Rightarrow> int \<Rightarrow> int \<Rightarrow> int image" where
  "rounded_rectangle e msk p0 p1 radius fill =
     msk\<lparr>pixel := (\<lambda>x y.
       if inside msk x y \<and> rounded_covers e p0 p1 radius x y then fill
       else pixel msk x y)\<rparr>"

text \<open>
  Modelled from the spec: \<open>img.putalpha(mask)\<close> replaces the alpha channel of every
  pixel by the mask's value there; Pillow refuses a mask of other dimensions.
\<close>

definition putalpha :: "rgba image \<Rightarrow> int image \<Rightarrow> error + rgba image" where
  "putalpha img msk =
     (if width msk \<noteq> width img \<or> height msk \<noteq> height img then Inl ValueError
      else Inr (img\<lparr>pixel := (\<lambda>x y. case pixel img x y of (r, g, b, a) \<Rightarrow> (r, g, b, pixel msk x y))\<rparr>))"

definition ImageFont_truetype :: "env \<Rightarrow> string \<Rightarrow> int \<Rightarrow> error + font" where
  "ImageFont_truetype e path n = (if truetype_loads e path n then Inr (TrueType path n) else Inl OSError)"

definition ImageDraw_text ::
    "env \<Rightarrow> rgba image \<Rightarrow> int \<times> int \<Rightarrow> string \<Rightarrow> rgb \<Rightarrow> font \<Rightarrow> rgba image" where
  "ImageDraw_text e img xy text fill f =
     img\<lparr>pixel := (\<lambda>x y. if inside img x y then text_pixel e f text xy fill img x y else pixel img x y)\<rparr>"

subsection \<open>The gradient\<close>

text \<open>
  The loop over \<open>range(size)\<close>, one row after the other. The script's variable
  \<open>size\<close> is written \<open>sz\<close> throughout.
\<close>

fun gradient_rows :: "int \<Rightarrow> int list \<Rightarrow> rgba image \<Rightarrow> error + rgba image" where
  "gradient_rows sz [] img = Inr img"
| "gradient_rows sz (y # ys) img =
     bind (truediv y sz) (\<lambda>factor.
     bind (interpolate_color COLOR_START COLOR_END factor) (\<lambda>color.
     gradient_rows sz ys (draw_line img 0 sz y color)))"

definition create_gradient_background :: "int \<Rightarrow> error + rgba image" where
  "create_gradient_background sz =
     bind (Image_new sz sz (0, 0, 0, 0)) (\<lambda>img.
     gradient_rows sz (map int [0..<nat sz]) img)"

subsection \<open>Rounded corners\<close>

definition add_rounded_corners :: "env \<Rightarrow> rgba image \<Rightarrow> int \<Rightarrow> error + rgba image" where
  "add_rounded_corners e img radius =
     (let sz = width img in
      bind (Image_new sz sz 0) (\<lambda>msk.
      putalpha img (rounded_rectangle e msk (0, 0) (sz, sz) radius 255)))"

subsection \<open>The monogram\<close>

text \<open>
  \<open>font_size\<close> is the script's local variable of that name, \<open>int(size * 0.45)\<close>, as a
  function of the size. \<open>draw_text\<close> changes the canvas in place; the model returns it.
\<close>

definition font_size :: "int \<Rightarrow> error + int" where
  "font_size sz = bind (int_mul_float sz lit_0_45) py_int"

definition font_macos :: string where
  "font_macos = ''/System/Library/Fonts/Supplemental/Arial Bold.ttf''"

definition font_linux :: string where
  "font_linux = ''/usr/share/fonts/truetype/dejavu/DejaVuSans-Bold.ttf''"

definition font_windows :: string where
  "font_windows = ''C:'' @ [CHR 0x5C] @ ''Windows'' @ [CHR 0x5C] @ ''Fonts'' @ [CHR 0x5C] @ ''arialbd.ttf''"

text \<open>
  The nested \<open>try\<close>/\<open>except\<close>: each bare \<open>except\<close> catches whatever the load raised and
  tries the next path; the last one calls \<open>ImageFont.load_default()\<close>.
\<close>

definition load_font :: "env \<Rightarrow> int \<Rightarrow> font" where
  "load_font e n =
     (case ImageFont_truetype e font_macos n of
        Inr f \<Rightarrow> f
      | Inl _ \<Rightarrow>
          (case ImageFont_truetype e font_linux n of
             Inr f \<Rightarrow> f
           | Inl _ \<Rightarrow>
               (case ImageFont_truetype e font_windows n of
                  Inr f \<Rightarrow> f
                | Inl _ \<Rightarrow> DefaultFont)))"

definition draw_text :: "env \<Rightarrow> rgba image \<Rightarrow> string \<Rightarrow> int \<Rightarrow> error + rgba image" where
  "draw_text e img text sz =
     bind (font_size sz) (\<lambda>n.
       let f = load_font e n;
           (b0, b1, b2, b3) = textbbox e f text;
           text_width = b2 - b0;
           text_height = b3 - b1;
           x = (sz - text_width) div 2;
           y = (sz - text_height) div 2 - b1
       in bind (hex_to_rgb COLOR_TEXT) (\<lambda>fill.
          Inr (ImageDraw_text e img (x, y) text fill f)))"

subsection \<open>Icons and files\<close>

record icon_config =
  cfg_size :: int
  cfg_name :: string

definition ICON_CONFIGS :: "icon_config list" where
  "ICON_CONFIGS =
     [\<lparr>cfg_size = 16, cfg_name = ''favicon-16.png''\<rparr>,
      \<lparr>cfg_size = 32, cfg_name = ''favicon-32.png''\<rparr>,
      \<lparr>cfg_size = 180, cfg_name = ''apple-touch-icon.png''\<rparr>,
      \<lparr>cfg_size = 192, cfg_name = ''icon-192.png''\<rparr>,
      \<lparr>cfg_size = 512, cfg_name = ''icon-512.png''\<rparr>]"

text \<open>
  Modelled from the spec: the file system and the console are not code of the
  repository. \<open>.parent\<close> drops the last component of a path and \<open>/\<close> appends one. The
  world of a run is what stands at each path (a directory, a file that holds an image
  saved in some format, or another file) and the lines printed so far.
\<close>

datatype node = Dir | Image_file string "rgba image" | Other_file

record world =
  nodes :: "path \<rightharpoonup> node"
  stdout :: "message list"

definition parent :: "path \<Rightarrow> path" where
  "parent p = butlast p"

text \<open>
  \<open>p.mkdir(exist_ok=True)\<close>, without \<open>parents=True\<close>: nothing happens when \<open>p\<close> is a
  directory already; it raises \<open>FileExistsError\<close> when \<open>p\<close> is a file,
  \<open>FileNotFoundError\<close> when the parent of \<open>p\<close> does not exist, \<open>NotADirectoryError\<close>
  when the parent is a file, and what the operating system answers otherwise.
\<close>

definition mkdir :: "env \<Rightarrow> path \<Rightarrow> world \<Rightarrow> error + world" where
  "mkdir e p w =
     (case nodes w p of
        Some Dir \<Rightarrow> Inr w
      | Some _ \<Rightarrow> Inl FileExistsError
      | None \<Rightarrow>
          (case nodes w (parent p) of
             None \<Rightarrow> Inl FileNotFoundError
           | Some Dir \<Rightarrow>
               (case os_error e p of
                  Some err \<Rightarrow> Inl err
                | None \<Rightarrow> Inr (w\<lparr>nodes := (nodes w)(p \<mapsto> Dir)\<rparr>))
           | Some _ \<Rightarrow> Inl NotADirectoryError))"

text \<open>
  \<open>img.save(p, fmt)\<close> opens \<open>p\<close> for writing, which raises when the parent of \<open>p\<close> is
  missing or a file, when \<open>p\<close> is a directory, or when the operating system refuses;
  then it encodes the image, and Pillow raises \<open>ValueError\<close> for an image without
  pixels. Otherwise the file, new or overwritten, holds the image in that format.
\<close>

definition save :: "env \<Rightarrow> rgba image \<Rightarrow> path \<Rightarrow> string \<Rightarrow> world \<Rightarrow> error + world" where
  "save e img p fmt w =
     (case nodes w (parent p) of
        None \<Rightarrow> Inl FileNotFoundError
      | Some Dir \<Rightarrow>
          (if nodes w p = Some Dir then Inl IsADirectoryError
           else case os_error e p of
                  Some err \<Rightarrow> Inl err
                | None \<Rightarrow>
                    if width img = 0 \<or> height img = 0 then Inl ValueError
                    else Inr (w\<lparr>nodes := (nodes w)(p \<mapsto> Image_file fmt img)\<rparr>))
      | Some _ \<Rightarrow> Inl NotADirectoryError)"

text \<open>\<open>print(m)\<close> writes the line to the console, or raises what the console answers.\<close>

definition print :: "env \<Rightarrow> message \<Rightarrow> world \<Rightarrow> error + world" where
  "print e m w =
     (case stdout_error e m of
        Some err \<Rightarrow> Inl err
      | None \<Rightarrow> Inr (w\<lparr>stdout := stdout w @ [m]\<rparr>))"

text \<open>\<open>radius\<close> is the local variable of \<open>generate_icon\<close>, \<open>int(size * 0.2)\<close>.\<close>

definition radius :: "int \<Rightarrow> error + int" where
  "radius sz = bind (int_mul_float sz lit_0_2) py_int"

definition generate_icon :: "env \<Rightarrow> icon_config \<Rightarrow> path \<Rightarrow> world \<Rightarrow> error + world" where
  "generate_icon e config output_dir w =
     (let sz = cfg_size config; name = cfg_name config in
      bind (create_gradient_background sz) (\<lambda>img.
      bind (radius sz) (\<lambda>r.
      bind (add_rounded_corners e img r) (\<lambda>img.
      bind (draw_text e img ''TB'' sz) (\<lambda>img.
      bind (save e img (output_dir @ [name]) ''PNG'' w) (\<lambda>w.
      print e (Generated name sz) w))))))"

text \<open>The loop of \<open>main\<close> over the configurations; an exception ends it.\<close>

fun generate_all :: "env \<Rightarrow> icon_config list \<Rightarrow> path \<Rightarrow> world \<Rightarrow> error + world" where
  "generate_all e [] icons_dir w = Inr w"
| "generate_all e (config # configs) icons_dir w =
     bind (generate_icon e config icons_dir w) (generate_all e configs icons_dir)"

text \<open>\<open>script_file\<close> is the script's own path, \<open>__file__\<close>.\<close>

definition icons_dir :: "path \<Rightarrow> path" where
  "icons_dir script_file = (let script_dir = parent script_file in parent script_dir @ [''icons''])"

definition main :: "env \<Rightarrow> path \<Rightarrow> world \<Rightarrow> error + world" where
  "main e script_file w =
     (let d = icons_dir script_file in
      bind (mkdir e d w) (\<lambda>w.
      bind (print e (Icons_directory d) w) (\<lambda>w.
      bind (print e Generating w) (\<lambda>w.
      bind (generate_all e ICON_CONFIGS d w) (\<lambda>w.
      bind (print e All_generated w) (\<lambda>w.
      print e (Location d) w))))))"

subsection \<open>Example machines\<close>

text \<open>
  \<open>env0\<close> is a machine on which no system font loads, every text box is empty, drawing
  text leaves the pixels as they are, the rounded rectangle covers its whole box, the
  operating system refuses nothing and the console prints every line. \<open>env_cp1252\<close>
  differs by its console, which cannot encode the characters of the script's lines.
  In \<open>world0\<close> the script lies in \<open>wwwroot/tools\<close> and nothing has been printed;
  \<open>world_file\<close> has, in addition, a file named \<open>icons\<close> in \<open>wwwroot\<close>.
\<close>

definition env0 :: env where
  "env0 = \<lparr>truetype_loads = (\<lambda>path n. False),
            textbbox = (\<lambda>f text. (0, 0, 0, 0)),
            text_pixel = (\<lambda>f text xy fill img x y. pixel img x y),
            rounded_covers = (\<lambda>p0 p1 r x y. True),
            os_error = (\<lambda>p. None),
            stdout_error = (\<lambda>m. None)\<rparr>"


definition script0 :: path where
  "script0 = [''wwwroot'', ''tools'', ''generate-icons.py'']"

definition world0 :: world where
  "world0 = \<lparr>nodes = [[''wwwroot''] \<mapsto> Dir, [''wwwroot'', ''tools''] \<mapsto> Dir,
                       [''wwwroot'', ''tools'', ''generate-icons.py''] \<mapsto> Other_file],
             stdout = []\<rparr>"

definition world_file :: world where
  "world_file = world0\<lparr>nodes := (nodes world0)([''wwwroot'', ''icons''] \<mapsto> Other_file)\<rparr>"

definition blank :: "rgba image" where
  "blank = \<lparr>width = 16, height = 16, pixel = (\<lambda>x y. (0, 0, 0, 0))\<rparr>"

subsection \<open>The statements of the specification\<close>

text \<open>
  The specification describes the input of \<open>hexToRgb\<close> as six hexadecimal digits after
  an optional \<open>#\<close>.
\<close>

definition is_hexdigit :: "char \<Rightarrow> bool" where
  "is_hexdigit c = (digit_value c \<noteq> None)"

definition hexval :: "char \<Rightarrow> int" where
  "hexval c = (case digit_value c of Some d \<Rightarrow> int d | None \<Rightarrow> 0)"

definition six_hex_digits :: "string \<Rightarrow> bool" where
  "six_hex_digits s = (length s = 6 \<and> list_all is_hexdigit s)"






text \<open>
  The specification's \<open>a + (b - a) * factor\<close>, evaluated as the script does: in double
  precision, the product first.
\<close>

definition interp_value :: "int \<Rightarrow> int \<Rightarrow> rat \<Rightarrow> rat" where
  "interp_value a b f = fl (of_int a + fl (of_int (b - a) * f))"

text \<open>The specification's font size, \<open>round(0.45 * size)\<close>.\<close>

definition spec_font_size :: "int \<Rightarrow> int" where
  "spec_font_size sz = round (45 / 100 * (of_int sz :: rat))"

text \<open>
  The picture \<open>generate_icon\<close> builds for a size before it saves it: the gradient, the
  rounded corners with the radius computed from the size, the monogram.
\<close>

definition icon_image :: "env \<Rightarrow> int \<Rightarrow> error + rgba image" where
  "icon_image e sz =
     bind (create_gradient_background sz) (\<lambda>img.
     bind (radius sz) (\<lambda>r.
     bind (add_rounded_corners e img r) (\<lambda>img.
     draw_text e img ''TB'' sz)))"

text \<open>
  The lines a complete run prints, for the icons directory \<open>d\<close>. \<open>io_succeeds\<close> says
  that the machine lets a run do all its input and output: the icons directory is
  there or can be made, no target file is a directory or refused by the operating
  system, and the console takes every line.
\<close>

definition run_messages :: "path \<Rightarrow> message list" where
  "run_messages d =
     [Icons_directory d, Generating]
     @ map (\<lambda>c. Generated (cfg_name c) (cfg_size c)) ICON_CONFIGS
     @ [All_generated, Location d]"

definition io_succeeds :: "env \<Rightarrow> path \<Rightarrow> world \<Rightarrow> bool" where
  "io_succeeds e script_file w =
     (let d = icons_dir script_file in
      (nodes w d = Some Dir
        \<or> nodes w d = None \<and> nodes w (parent d) = Some Dir \<and> os_error e d = None)
      \<and> (\<forall>m\<in>set (run_messages d). stdout_error e m = None)
      \<and> (\<forall>c\<in>set ICON_CONFIGS.
            nodes w (d @ [cfg_name c]) \<noteq> Some Dir \<and> os_error e (d @ [cfg_name c]) = None))"

subsection \<open>The values of the gradient loop\<close>

text \<open>
  In the iteration for row \<open>y\<close> of \<open>create_gradient_background\<close>, \<open>row_factor\<close> is the
  value of \<open>factor\<close> and \<open>row_color\<close> the value of \<open>color\<close>; \<open>opaque\<close> is that colour
  as the pixel the line leaves. \<open>result_pixel\<close> reads a pixel of a result.
\<close>

definition row_factor :: "int \<Rightarrow> int \<Rightarrow> rat" where
  "row_factor sz y = fl (of_int y / of_int sz)"

definition row_color :: "int \<Rightarrow> int \<Rightarrow> rgb" where
  "row_color sz y =
     (let f = row_factor sz y in
      (trunc (interp_value 112 91 f), trunc (interp_value 209 191 f),
       trunc (interp_value 199 181 f)))"

definition opaque :: "rgb \<Rightarrow> rgba" where
  "opaque c = (case c of (r, g, b) \<Rightarrow> (r, g, b, 255))"

definition result_pixel :: "error + 'p image \<Rightarrow> int \<Rightarrow> int \<Rightarrow> 'p option" where
  "result_pixel res x y = (case res of Inl e \<Rightarrow> None | Inr img \<Rightarrow> Some (pixel img x y))"

section \<open>Properties\<close>

subsection \<open>Rounding\<close>

lemma round_half_even_of_int: "round_half_even (of_int n) = n"
  by (simp add: round_half_even_def)

lemma round_half_even_le: "q \<le> of_int n \<Longrightarrow> round_half_even q \<le> n"
proof -
  assume h: "q \<le> of_int n"
  hence f: "\<lfloor>q\<rfloor> \<le> n" by (simp add: floor_le_iff)
  show ?thesis
  proof (cases "\<lfloor>q\<rfloor> = n")
    case True
    with h have "q - of_int \<lfloor>q\<rfloor> \<le> 0" by simp
    hence "q - of_int \<lfloor>q\<rfloor> < 1 / 2" by linarith
    thus ?thesis using True by (simp add: round_half_even_def Let_def)
  next
    case False
    with f have "\<lfloor>q\<rfloor> + 1 \<le> n" by linarith
    thus ?thesis by (simp add: round_half_even_def Let_def)
  qed
qed

lemma round_half_even_ge: "of_int n \<le> q \<Longrightarrow> n \<le> round_half_even q"
proof -
  assume "of_int n \<le> q"
  hence "n \<le> \<lfloor>q\<rfloor>" by (simp add: le_floor_iff)
  thus ?thesis by (simp add: round_half_even_def Let_def)
qed

lemma round_half_even_minus: "round_half_even (- q) = - round_half_even q"
proof (cases "q = of_int \<lfloor>q\<rfloor>")
  case True
  then obtain n where "q = of_int n" ..
  hence "- q = of_int (- n)" by simp
  thus ?thesis using \<open>q = of_int n\<close> by (simp only: round_half_even_of_int)
next
  case False
  have fl: "of_int \<lfloor>q\<rfloor> \<le> q" "q < of_int \<lfloor>q\<rfloor> + 1" by linarith+
  from False fl have lt: "of_int \<lfloor>q\<rfloor> < q" by linarith
  have "\<lfloor>- q\<rfloor> = - \<lfloor>q\<rfloor> - 1"
    by (rule floor_unique) (use lt fl in \<open>simp_all\<close>)
  thus ?thesis
    using lt fl by (auto simp add: round_half_even_def Let_def)
qed

lemma pow2_less_cancel: "(2::rat) powi a < 2 powi b \<Longrightarrow> a < b"
proof (rule ccontr)
  assume lt: "(2::rat) powi a < 2 powi b" and "\<not> a < b"
  hence "b \<le> a" by simp
  hence "(2::rat) powi b \<le> 2 powi a" by (intro power_int_increasing) simp_all
  with lt show False by simp
qed

lemma exponent_bounds:
  assumes "x \<noteq> 0"
  shows "2 powi exponent x \<le> \<bar>x\<bar>" and "\<bar>x\<bar> < 2 powi (exponent x + 1)"
proof -
  obtain p q where pq: "quotient_of \<bar>x\<bar> = (p, q)" by (cases "quotient_of \<bar>x\<bar>")
  have q: "0 < q" using pq by (rule quotient_of_denom_pos)
  have x: "\<bar>x\<bar> = of_int p / of_int q" using pq by (rule quotient_of_div)
  have "0 < \<bar>x\<bar>" using assms by simp
  hence p: "0 < p" using x q by (simp add: zero_less_divide_iff)
  define k where "k = bitlen p - bitlen q"
  have bp: "1 \<le> bitlen p" and bq: "1 \<le> bitlen q"
    using p q by (simp_all add: bitlen_alt_def)
  have pb: "(2::rat) powi (bitlen p - 1) \<le> of_int p" "of_int p < (2::rat) powi bitlen p"
  proof -
    from bitlen_bounds[OF p] have "2 ^ nat (bitlen p - 1) \<le> p" "p < 2 ^ nat (bitlen p)" by auto
    hence "(of_int (2 ^ nat (bitlen p - 1)) :: rat) \<le> of_int p" "(of_int p :: rat) < of_int (2 ^ nat (bitlen p))"
      by (simp_all only: of_int_le_iff of_int_less_iff)
    thus "(2::rat) powi (bitlen p - 1) \<le> of_int p" "of_int p < (2::rat) powi bitlen p"
      using bp by (simp_all add: power_int_def)
  qed
  have qb: "(2::rat) powi (bitlen q - 1) \<le> of_int q" "of_int q < (2::rat) powi bitlen q"
  proof -
    from bitlen_bounds[OF q] have "2 ^ nat (bitlen q - 1) \<le> q" "q < 2 ^ nat (bitlen q)" by auto
    hence "(of_int (2 ^ nat (bitlen q - 1)) :: rat) \<le> of_int q" "(of_int q :: rat) < of_int (2 ^ nat (bitlen q))"
      by (simp_all only: of_int_le_iff of_int_less_iff)
    thus "(2::rat) powi (bitlen q - 1) \<le> of_int q" "of_int q < (2::rat) powi bitlen q"
      using bq by (simp_all add: power_int_def)
  qed
  have qpos: "(0::rat) < of_int q" using q by simp
  have lo: "2 powi (k - 1) < \<bar>x\<bar>"
  proof -
    have "(2::rat) powi (k - 1) * of_int q < 2 powi (k - 1) * 2 powi bitlen q"
      using qb(2) by (intro mult_strict_left_mono) simp_all
    also have "\<dots> = 2 powi (bitlen p - 1)"
      by (simp add: k_def flip: power_int_add)
    also have "\<dots> \<le> of_int p" by (rule pb(1))
    finally show ?thesis using qpos by (simp add: x pos_less_divide_eq)
  qed
  have hi: "\<bar>x\<bar> < 2 powi (k + 1)"
  proof -
    have "(of_int p :: rat) < 2 powi bitlen p" by (rule pb(2))
    also have "\<dots> = 2 powi (k + 1) * 2 powi (bitlen q - 1)"
      by (simp add: k_def flip: power_int_add)
    also have "\<dots> \<le> 2 powi (k + 1) * of_int q"
      using qb(1) by (intro mult_left_mono) simp_all
    finally show ?thesis using qpos by (simp add: x pos_divide_less_eq)
  qed
  have e: "exponent x = (if 2 powi k \<le> \<bar>x\<bar> then k else k - 1)"
    by (simp add: exponent_def pq k_def Let_def)
  show "2 powi exponent x \<le> \<bar>x\<bar>" using lo by (simp add: e)
  show "\<bar>x\<bar> < 2 powi (exponent x + 1)" using hi by (auto simp add: e)
qed

lemma exponent_unique:
  assumes "2 powi e \<le> \<bar>x\<bar>" and "\<bar>x\<bar> < 2 powi (e + 1)"
  shows "exponent x = e"
proof -
  have nz: "x \<noteq> 0"
  proof
    assume "x = 0"
    with assms(1) have "(2::rat) powi e \<le> 0" by simp
    moreover have "(0::rat) < 2 powi e" by simp
    ultimately show False by linarith
  qed
  from exponent_bounds[OF nz] assms
  have "(2::rat) powi exponent x < 2 powi (e + 1)" "(2::rat) powi e < 2 powi (exponent x + 1)"
    by linarith+
  hence "exponent x < e + 1" "e < exponent x + 1"
    by (auto dest: pow2_less_cancel)
  thus ?thesis by simp
qed


lemma exponent_minus: "exponent (- x) = exponent x"
  by (simp add: exponent_def)

lemma exponent_mono:
  assumes "x \<noteq> 0" and "\<bar>x\<bar> \<le> \<bar>y\<bar>"
  shows "exponent x \<le> exponent y"
proof -
  from assms have ny: "y \<noteq> 0" by auto
  from exponent_bounds(1)[OF assms(1)] exponent_bounds(2)[OF ny] assms(2)
  have "(2::rat) powi exponent x < 2 powi (exponent y + 1)" by linarith
  hence "exponent x < exponent y + 1" by (rule pow2_less_cancel)
  thus ?thesis by simp
qed

lemma fl_alt: "fl x = of_int (round_half_even (x / 2 powi ulp_exp x)) * 2 powi ulp_exp x"
  by (simp add: fl_def Let_def round_half_even_def)

lemma fl_minus: "fl (- x) = - fl x"
  by (simp add: fl_alt ulp_exp_def exponent_minus round_half_even_minus)

lemma fl_le_grid:
  assumes "x \<le> of_int n * 2 powi ulp_exp x"
  shows "fl x \<le> of_int n * 2 powi ulp_exp x"
proof -
  have pos: "(0::rat) < 2 powi ulp_exp x" by simp
  from assms have "x / 2 powi ulp_exp x \<le> of_int n"
    using pos by (simp add: pos_divide_le_eq)
  hence "round_half_even (x / 2 powi ulp_exp x) \<le> n" by (rule round_half_even_le)
  hence "(of_int (round_half_even (x / 2 powi ulp_exp x)) :: rat) \<le> of_int n" by simp
  thus ?thesis unfolding fl_alt using pos by (intro mult_right_mono) simp_all
qed

lemma fl_ge_grid:
  assumes "of_int n * 2 powi ulp_exp x \<le> x"
  shows "of_int n * 2 powi ulp_exp x \<le> fl x"
proof -
  have pos: "(0::rat) < 2 powi ulp_exp x" by simp
  from assms have "of_int n \<le> x / 2 powi ulp_exp x"
    using pos by (simp add: pos_le_divide_eq)
  hence "n \<le> round_half_even (x / 2 powi ulp_exp x)" by (rule round_half_even_ge)
  hence "(of_int n :: rat) \<le> of_int (round_half_even (x / 2 powi ulp_exp x))" by simp
  thus ?thesis unfolding fl_alt using pos by (intro mult_right_mono) simp_all
qed

lemma fl_nonneg: "0 \<le> x \<Longrightarrow> 0 \<le> fl x"
  using fl_ge_grid[of 0 x] by simp

lemma fl_nonpos: "x \<le> 0 \<Longrightarrow> fl x \<le> 0"
  using fl_le_grid[of x 0] by simp

text \<open>A multiple of a coarser power of two lies on every finer grid.\<close>

lemma grid_refine:
  assumes "s \<le> t"
  shows "\<exists>n'. of_int n * (2::rat) powi t = of_int n' * 2 powi s"
proof -
  have "(2::rat) powi t = 2 powi (t - s) * 2 powi s"
    by (simp flip: power_int_add)
  also have "(2::rat) powi (t - s) = of_int (2 ^ nat (t - s))"
    using assms by (simp add: power_int_def)
  finally have "of_int n * (2::rat) powi t = of_int (n * 2 ^ nat (t - s)) * 2 powi s"
    by simp
  thus ?thesis ..
qed

lemma fl_exact:
  assumes "\<bar>m\<bar> < 2 ^ 53" and "- 1074 \<le> j"
  shows "fl (of_int m * 2 powi j) = of_int m * 2 powi j"
proof (cases "m = 0")
  case True
  thus ?thesis by (simp add: fl_def)
next
  case False
  define x :: rat where "x = of_int m * 2 powi j"
  have nz: "x \<noteq> 0" using False by (simp add: x_def)
  have "\<bar>x\<bar> = of_int \<bar>m\<bar> * 2 powi j" by (simp add: x_def abs_mult)
  also have "\<dots> < of_int (2 ^ 53) * 2 powi j"
    using assms(1) by (intro mult_strict_right_mono) (simp_all only: of_int_less_iff zero_less_power_int zero_less_numeral)
  also have "\<dots> = 2 powi (53 + j)" by (simp add: power_int_add)
  finally have "(2::rat) powi exponent x < 2 powi (53 + j)"
    using exponent_bounds(1)[OF nz] by linarith
  hence "exponent x < 53 + j" by (rule pow2_less_cancel)
  hence "ulp_exp x \<le> j" using assms(2) by (simp add: ulp_exp_def)
  from grid_refine[OF this, of m] obtain n' where n': "x = of_int n' * 2 powi ulp_exp x"
    by (auto simp: x_def)
  have "fl x \<le> x" using fl_le_grid[of x n'] n' by simp
  moreover have "x \<le> fl x" using fl_ge_grid[of n' x] n' by simp
  ultimately show ?thesis by (simp add: x_def)
qed

lemma fl_of_int: "\<bar>m\<bar> < 2 ^ 53 \<Longrightarrow> fl (of_int m) = of_int m"
  using fl_exact[of m 0] by simp

text \<open>A representable number bounds the rounding of everything on its side.\<close>

lemma fl_fixed_on_grid:
  assumes "fl y = y" 
  shows "\<exists>n. y = of_int n * 2 powi ulp_exp y"
  using assms fl_alt[of y] by metis

lemma ulp_exp_mono: "x \<noteq> 0 \<Longrightarrow> \<bar>x\<bar> \<le> \<bar>y\<bar> \<Longrightarrow> ulp_exp x \<le> ulp_exp y"
  using exponent_mono[of x y] by (simp add: ulp_exp_def)

lemma fl_le_fixed_pos:
  assumes "0 < x" "x \<le> y" "fl y = y"
  shows "fl x \<le> y"
proof -
  from fl_fixed_on_grid[OF assms(3)] obtain n where n: "y = of_int n * 2 powi ulp_exp y" ..
  have "ulp_exp x \<le> ulp_exp y" using assms by (intro ulp_exp_mono) simp_all
  from grid_refine[OF this, of n] n obtain n' where "y = of_int n' * 2 powi ulp_exp x" by auto
  thus ?thesis using fl_le_grid[of x n'] assms(2) by simp
qed

lemma fl_ge_fixed_pos:
  assumes "0 < y" "y \<le> x" "fl y = y"
  shows "y \<le> fl x"
proof (cases "ulp_exp y = ulp_exp x")
  case True
  from fl_fixed_on_grid[OF assms(3)] obtain n where n: "y = of_int n * 2 powi ulp_exp x"
    unfolding True ..
  thus ?thesis using fl_ge_grid[of n x] assms(2) by simp
next
  case False
  have xpos: "0 < x" using assms by linarith
  have "ulp_exp y \<le> ulp_exp x" using assms by (intro ulp_exp_mono) simp_all
  with False have lt: "ulp_exp y < ulp_exp x" by simp
  hence ex: "ulp_exp x = exponent x - 52" and ey: "exponent y < exponent x"
    by (auto simp: ulp_exp_def max_def split: if_splits)
  have ny: "y \<noteq> 0" and nx: "x \<noteq> 0" using assms xpos by simp_all
  have "y < 2 powi (exponent y + 1)" using exponent_bounds(2)[OF ny] assms(1) by simp
  also have "\<dots> \<le> 2 powi exponent x" using ey by (intro power_int_increasing) simp_all
  finally have y: "y < 2 powi exponent x" .
  have "(2::rat) powi exponent x = of_int (2 ^ 52) * 2 powi ulp_exp x"
    by (simp add: ex power_int_diff)
  moreover have "2 powi exponent x \<le> x" using exponent_bounds(1)[OF nx] xpos by simp
  ultimately have "2 powi exponent x \<le> fl x"
    using fl_ge_grid[of "2 ^ 52" x] by simp
  with y show ?thesis by simp
qed

lemma fl_le_fixed:
  assumes "x \<le> y" "fl y = y"
  shows "fl x \<le> y"
proof -
  consider "0 < x" | "x \<le> 0" "0 \<le> y" | "x \<le> 0" "y < 0" by linarith
  thus ?thesis
  proof cases
    case 1 thus ?thesis using assms by (intro fl_le_fixed_pos)
  next
    case 2 thus ?thesis using fl_nonpos[of x] by simp
  next
    case 3
    have "- y \<le> fl (- x)"
      using 3 assms by (intro fl_ge_fixed_pos) (simp_all add: fl_minus)
    thus ?thesis by (simp add: fl_minus)
  qed
qed

lemma fl_ge_fixed:
  assumes "y \<le> x" "fl y = y"
  shows "y \<le> fl x"
proof -
  have "fl (- x) \<le> - y" using assms by (intro fl_le_fixed) (simp_all add: fl_minus)
  thus ?thesis by (simp add: fl_minus)
qed

lemma fl_pow2: "- 1074 \<le> j \<Longrightarrow> fl (2 powi j) = 2 powi j"
  using fl_exact[of 1 j] by simp

lemma to_float_finite:
  assumes "\<bar>x\<bar> \<le> 2 ^ 1023"
  shows "to_float x = Finite (fl x)"
proof -
  define B :: rat where "B = 2 ^ 1023"
  have B: "B = 2 powi 1023" by (simp only: B_def power_int_numeral)
  have fB: "fl B = B" unfolding B by (rule fl_pow2) simp
  have fmB: "fl (- B) = - B" by (simp only: fl_minus fB)
  have "x \<le> B" "- B \<le> x" using assms unfolding B_def by linarith+
  hence "fl x \<le> B" "- B \<le> fl x"
    using fl_le_fixed[OF _ fB] fl_ge_fixed[OF _ fmB] by blast+
  hence "\<bar>fl x\<bar> \<le> B" by linarith
  moreover have "B < 2 ^ 1024" unfolding B_def by (rule power_strict_increasing) simp_all
  ultimately have "\<not> 2 ^ 1024 \<le> \<bar>fl x\<bar>" by linarith
  thus ?thesis by (simp only: to_float_def Let_def if_False)
qed

lemma small_le_big: "(2::rat) ^ 60 \<le> 2 ^ 1023"
  by (rule power_increasing) simp_all

lemma to_float_small: "\<bar>x\<bar> \<le> 2 ^ 60 \<Longrightarrow> to_float x = Finite (fl x)"
  using small_le_big by (intro to_float_finite) linarith

lemma float_of_int_small:
  assumes "\<bar>n\<bar> < 2 ^ 53"
  shows "float_of_int n = Inr (Finite (of_int n))"
proof -
  have "\<bar>of_int n :: rat\<bar> \<le> of_int (2 ^ 53)"
    using assms unfolding of_int_abs[symmetric] of_int_le_iff by simp
  hence "\<bar>of_int n :: rat\<bar> \<le> 2 ^ 60" by simp
  thus ?thesis by (simp add: float_of_int_def to_float_small fl_of_int[OF assms])
qed

lemma round_half_even_near: "\<bar>of_int (round_half_even q) - q\<bar> \<le> 1 / 2"
proof -
  define d where "d = q - of_int \<lfloor>q\<rfloor>"
  have d: "0 \<le> d" "d < 1" unfolding d_def by linarith+
  have q: "q = of_int \<lfloor>q\<rfloor> + d" by (simp add: d_def)
  consider "d < 1 / 2" | "1 / 2 < d" | "d = 1 / 2" by linarith
  thus ?thesis
  proof cases
    case 1
    hence "round_half_even q = \<lfloor>q\<rfloor>" by (simp add: round_half_even_def Let_def d_def)
    thus ?thesis using 1 d q by linarith
  next
    case 2
    hence "round_half_even q = \<lfloor>q\<rfloor> + 1" by (simp add: round_half_even_def Let_def d_def)
    hence "(of_int (round_half_even q) :: rat) = of_int \<lfloor>q\<rfloor> + 1" by simp
    thus ?thesis using 2 d q by linarith
  next
    case 3
    hence "round_half_even q = \<lfloor>q\<rfloor> \<or> round_half_even q = \<lfloor>q\<rfloor> + 1"
      by (simp add: round_half_even_def Let_def d_def)
    hence "(of_int (round_half_even q) :: rat) = of_int \<lfloor>q\<rfloor>
         \<or> (of_int (round_half_even q) :: rat) = of_int \<lfloor>q\<rfloor> + 1" by auto
    thus ?thesis using 3 d q by linarith
  qed
qed

lemma round_half_even_eqI:
  assumes "of_int n - 1 / 2 < q" and "q < of_int n + 1 / 2"
  shows "round_half_even q = n"
proof -
  from round_half_even_near[of q] assms
  have "(of_int (round_half_even q) :: rat) < of_int n + 1"
    and "(of_int n :: rat) < of_int (round_half_even q) + 1"
    by linarith+
  hence "(of_int (round_half_even q) :: rat) < of_int (n + 1)"
    and "(of_int n :: rat) < of_int (round_half_even q + 1)"
    by simp_all
  hence "round_half_even q < n + 1" and "n < round_half_even q + 1"
    by (simp_all only: of_int_less_iff)
  thus ?thesis by simp
qed

lemma fl_eval:
  assumes "2 powi e \<le> \<bar>x\<bar>" "\<bar>x\<bar> < 2 powi (e + 1)" "- 1022 \<le> e"
    and "of_int n - 1 / 2 < x / 2 powi (e - 52)" "x / 2 powi (e - 52) < of_int n + 1 / 2"
  shows "fl x = of_int n * 2 powi (e - 52)"
proof -
  have "ulp_exp x = e - 52"
    using exponent_unique[OF assms(1,2)] assms(3) by (simp add: ulp_exp_def)
  thus ?thesis using round_half_even_eqI[OF assms(4,5)] by (simp add: fl_alt)
qed

lemma lit_0_2_value: "lit_0_2 = Finite (3602879701896397 / 2 ^ 54)"
proof -
  have "fl (2 / 10) = of_int 7205759403792794 * 2 powi (- 3 - 52)"
    by (rule fl_eval) (simp_all add: power_int_minus)
  hence f: "fl (2 / 10) = 3602879701896397 / 2 ^ 54" by (simp add: power_int_minus)
  have "to_float (2 / 10) = Finite (fl (2 / 10))" by (rule to_float_small) simp
  thus ?thesis by (simp only: lit_0_2_def f)
qed

lemma lit_0_45_value: "lit_0_45 = Finite (8106479329266893 / 2 ^ 54)"
proof -
  have "fl (45 / 100) = of_int 8106479329266893 * 2 powi (- 2 - 52)"
    by (rule fl_eval) (simp_all add: power_int_minus)
  hence f: "fl (45 / 100) = 8106479329266893 / 2 ^ 54" by (simp add: power_int_minus)
  have "to_float (45 / 100) = Finite (fl (45 / 100))" by (rule to_float_small) simp
  thus ?thesis by (simp only: lit_0_45_def f)
qed

lemma fl_zero: "fl 0 = 0" by (simp add: fl_def)

lemma fl_between:
  assumes "l \<le> x" "x \<le> u" "fl l = l" "fl u = u"
  shows "l \<le> fl x" "fl x \<le> u"
  using assms fl_ge_fixed fl_le_fixed by blast+

lemma fl_between_ints:
  assumes "of_int l \<le> x" "x \<le> of_int u" "\<bar>l\<bar> < 2 ^ 53" "\<bar>u\<bar> < 2 ^ 53"
  shows "of_int l \<le> fl x" "fl x \<le> of_int u"
  using fl_between[OF assms(1,2) fl_of_int[OF assms(3)] fl_of_int[OF assms(4)]] .

lemma fl_abs_le_pow2:
  assumes "\<bar>x\<bar> \<le> 2 ^ n"
  shows "\<bar>fl x\<bar> \<le> 2 ^ n"
proof -
  have f: "fl (2 ^ n) = 2 ^ n" using fl_pow2[of "int n"] by simp
  hence g: "fl (- (2 ^ n)) = - (2 ^ n)" by (simp only: fl_minus)
  have "- (2 ^ n) \<le> x" "x \<le> 2 ^ n" using assms by linarith+
  from fl_between[OF this g f] show ?thesis by linarith
qed

lemma truediv_unit:
  assumes "0 \<le> y" "y < sz"
  shows "truediv y sz = Inr (Finite (fl (of_int y / of_int sz)))"
    and "0 \<le> fl (of_int y / of_int sz)" and "fl (of_int y / of_int sz) \<le> 1"
proof -
  define q :: rat where "q = of_int y / of_int sz"
  have sz: "(0::rat) < of_int sz" using assms by simp
  have "(of_int y :: rat) \<le> of_int sz" using assms by simp
  hence q: "0 \<le> q" "q \<le> 1" using assms(1) sz by (simp_all add: q_def pos_divide_le_eq)
  show "0 \<le> fl q" using q(1) by (rule fl_nonneg)
  show "fl q \<le> 1" using fl_between_ints(2)[of 0 q 1] q by simp
  have "\<bar>q\<bar> \<le> 2 ^ 60" using q by simp
  thus "truediv y sz = Inr (Finite (fl q))"
    using assms by (simp add: truediv_def to_float_small flip: q_def)
qed

lemma floor_rat_numeral: "\<lfloor>numeral a / numeral b :: rat\<rfloor> = numeral a div numeral b"
  using floor_divide_of_int_eq[of "numeral a" "numeral b", where ?'a = rat] by simp

lemma floor_rat_neg_numeral: "\<lfloor>- (numeral a / numeral b) :: rat\<rfloor> = - numeral a div numeral b"
  using floor_divide_of_int_eq[of "- numeral a" "numeral b", where ?'a = rat] by simp

lemma ceiling_rat_neg_numeral: "\<lceil>- (numeral a / numeral b) :: rat\<rceil> = - (numeral a div numeral b)"
  by (simp add: ceiling_def floor_rat_numeral)

lemma ceiling_rat_numeral: "\<lceil>numeral a / numeral b :: rat\<rceil> = - (- numeral a div numeral b)"
  by (simp add: ceiling_def floor_rat_neg_numeral)

lemmas rat_floor_simps =
  floor_rat_numeral floor_rat_neg_numeral ceiling_rat_neg_numeral ceiling_rat_numeral

lemma trunc_fl_between:
  assumes "0 \<le> k" "k < 2 ^ 53" "of_int k \<le> x"
    and "x \<le> of_int m * 2 powi j" "of_int m * 2 powi j < (of_int k :: rat) + 1"
    and "\<bar>m\<bar> < 2 ^ 53" "- 1074 \<le> j"
  shows "trunc (fl x) = k"
proof -
  have "fl (of_int k) = of_int k" using assms(1,2) by (intro fl_of_int) simp
  hence lo: "of_int k \<le> fl x" using assms(3) by (intro fl_ge_fixed)
  have "fl x \<le> of_int m * 2 powi j"
    using assms(4) fl_exact[OF assms(6,7)] by (intro fl_le_fixed)
  hence hi: "fl x < of_int k + 1" using assms(5) by linarith
  have "0 \<le> fl x" using lo assms(1) by (meson of_int_0_le_iff order_trans)
  moreover have "\<lfloor>fl x\<rfloor> = k" using lo hi by (intro floor_unique)
  ultimately show ?thesis by (simp add: trunc_def)
qed

lemma int_mul_float_small:
  assumes "\<bar>n\<bar> < 2 ^ 53" and "\<bar>of_int n * c\<bar> \<le> 2 ^ 60"
  shows "int_mul_float n (Finite c) = Inr (Finite (fl (of_int n * c)))"
  by (simp add: int_mul_float_def bind_def float_of_int_small[OF assms(1)] to_float_small[OF assms(2)])

lemma radius_eq:
  assumes "0 \<le> n" and "n < 2 ^ 50"
  shows "radius n = Inr (n div 5)"
proof -
  define c :: rat where "c = 3602879701896397 / 2 ^ 54"
  define k where "k = n div 5"
  define r where "r = n mod 5"
  have n: "n = 5 * k + r" and r: "0 \<le> r" "r \<le> 4" by (simp_all add: k_def r_def)
  hence nq: "(of_int n :: rat) = 5 * of_int k + of_int r" by simp
  have rq: "(0::rat) \<le> of_int r" "(of_int r :: rat) \<le> 4" using r by simp_all
  have "n \<le> 2 ^ 50" using assms by simp
  hence "(of_int n :: rat) \<le> of_int (2 ^ 50)" by (simp only: of_int_le_iff)
  hence nb: "(0::rat) \<le> of_int n" "(of_int n :: rat) \<le> 2 ^ 50"
    using assms(1) by simp_all
  have k0: "0 \<le> k" using assms by (simp add: k_def)
  have kq: "(0::rat) \<le> of_int k" using k0 by simp
  have kb: "k < 2 ^ 50" using assms k0 n r by linarith
  have x1: "of_int k \<le> of_int n * c" using nq rq nb kq by (simp add: c_def)
  have x2: "of_int n * c \<le> of_int (8 * k + 7) * 2 powi (- 3)"
    using nq rq nb kq by (simp add: c_def power_int_minus)
  have x3: "of_int (8 * k + 7) * 2 powi (- 3) < (of_int k :: rat) + 1"
    by (simp add: power_int_minus)
  have t: "trunc (fl (of_int n * c)) = k"
    using k0 kb by (intro trunc_fl_between[OF _ _ x1 x2 x3]) simp_all
  have "\<bar>of_int n * c\<bar> \<le> 2 ^ 60" using nb by (simp add: c_def abs_mult)
  hence "int_mul_float n (Finite c) = Inr (Finite (fl (of_int n * c)))"
    using assms by (intro int_mul_float_small) simp_all
  moreover have "lit_0_2 = Finite c" by (simp only: lit_0_2_value c_def)
  ultimately show ?thesis by (simp add: radius_def bind_def t k_def)
qed

lemma font_size_eq:
  assumes "0 \<le> n" and "n < 2 ^ 48"
  shows "font_size n = Inr (9 * n div 20)"
proof -
  define c :: rat where "c = 8106479329266893 / 2 ^ 54"
  define k where "k = 9 * n div 20"
  define r where "r = 9 * n mod 20"
  have n: "9 * n = 20 * k + r" and r: "0 \<le> r" "r \<le> 19" by (simp_all add: k_def r_def)
  hence "(of_int (9 * n) :: rat) = of_int (20 * k + r)" by (simp only:)
  hence nq: "9 * (of_int n :: rat) = 20 * of_int k + of_int r" by simp
  have rq: "(0::rat) \<le> of_int r" "(of_int r :: rat) \<le> 19" using r by simp_all
  have "n \<le> 2 ^ 48" using assms by simp
  hence "(of_int n :: rat) \<le> of_int (2 ^ 48)" by (simp only: of_int_le_iff)
  hence nb: "(0::rat) \<le> of_int n" "(of_int n :: rat) \<le> 2 ^ 48"
    using assms(1) by simp_all
  have k0: "0 \<le> k" using assms by (simp add: k_def)
  have kq: "(0::rat) \<le> of_int k" using k0 by simp
  have kb: "k < 2 ^ 48" using assms k0 n r by linarith
  have x1: "of_int k \<le> of_int n * c" using nq rq nb kq by (simp add: c_def)
  have x2: "of_int n * c \<le> of_int (32 * k + 31) * 2 powi (- 5)"
    using nq rq nb kq by (simp add: c_def power_int_minus)
  have x3: "of_int (32 * k + 31) * 2 powi (- 5) < (of_int k :: rat) + 1"
    by (simp add: power_int_minus)
  have t: "trunc (fl (of_int n * c)) = k"
    using k0 kb by (intro trunc_fl_between[OF _ _ x1 x2 x3]) simp_all
  have "\<bar>of_int n * c\<bar> \<le> 2 ^ 60" using nb by (simp add: c_def abs_mult)
  hence "int_mul_float n (Finite c) = Inr (Finite (fl (of_int n * c)))"
    using assms by (intro int_mul_float_small) simp_all
  moreover have "lit_0_45 = Finite c" by (simp only: lit_0_45_value c_def)
  ultimately show ?thesis by (simp add: font_size_def bind_def t k_def)
qed

lemma round_half_even_mono:
  assumes "q \<le> q'"
  shows "round_half_even q \<le> round_half_even q'"
proof (cases "\<lfloor>q\<rfloor> = \<lfloor>q'\<rfloor>")
  case True
  have "q - of_int \<lfloor>q'\<rfloor> \<le> q' - of_int \<lfloor>q'\<rfloor>" using assms by simp
  thus ?thesis unfolding round_half_even_def Let_def True by auto
next
  case False
  have "\<lfloor>q\<rfloor> \<le> \<lfloor>q'\<rfloor>" using assms by (rule floor_mono)
  with False have "\<lfloor>q\<rfloor> + 1 \<le> \<lfloor>q'\<rfloor>" by simp
  moreover have "round_half_even q \<le> \<lfloor>q\<rfloor> + 1" by (simp add: round_half_even_def Let_def)
  moreover have "\<lfloor>q'\<rfloor> \<le> round_half_even q'" by (simp add: round_half_even_def Let_def)
  ultimately show ?thesis by linarith
qed

lemma fl_mono_pos:
  assumes "0 < x" and "x \<le> y"
  shows "fl x \<le> fl y"
proof (cases "ulp_exp x = ulp_exp y")
  case True
  have pos: "(0::rat) < 2 powi ulp_exp y" by simp
  have "x / 2 powi ulp_exp y \<le> y / 2 powi ulp_exp y"
    using assms(2) pos by (simp add: divide_right_mono)
  hence "round_half_even (x / 2 powi ulp_exp y) \<le> round_half_even (y / 2 powi ulp_exp y)"
    by (rule round_half_even_mono)
  hence "(of_int (round_half_even (x / 2 powi ulp_exp y)) :: rat)
           \<le> of_int (round_half_even (y / 2 powi ulp_exp y))" by simp
  thus ?thesis unfolding fl_alt True using pos by (intro mult_right_mono) simp_all
next
  case False
  have nx: "x \<noteq> 0" and ny: "y \<noteq> 0" and ypos: "0 < y" using assms by simp_all
  have "ulp_exp x \<le> ulp_exp y" using assms by (intro ulp_exp_mono) simp_all
  with False have "ulp_exp x < ulp_exp y" by simp
  hence e: "exponent x < exponent y" "- 1022 < exponent y"
    by (auto simp: ulp_exp_def max_def split: if_splits)
  define c :: rat where "c = 2 powi exponent y"
  have fc: "fl c = c" unfolding c_def using e(2) by (intro fl_pow2) simp
  have "x < 2 powi (exponent x + 1)" using exponent_bounds(2)[OF nx] assms(1) by simp
  also have "\<dots> \<le> c" unfolding c_def using e(1) by (intro power_int_increasing) simp_all
  finally have "x \<le> c" by simp
  hence "fl x \<le> c" using fc by (rule fl_le_fixed)
  moreover have "c \<le> y" unfolding c_def using exponent_bounds(1)[OF ny] ypos by simp
  hence "c \<le> fl y" using fc by (rule fl_ge_fixed)
  ultimately show ?thesis by simp
qed

lemma fl_mono:
  assumes "x \<le> y"
  shows "fl x \<le> fl y"
proof -
  consider "0 < x" | "x \<le> 0" "0 \<le> y" | "y < 0" using assms by linarith
  thus ?thesis
  proof cases
    case 1 thus ?thesis using assms by (rule fl_mono_pos)
  next
    case 2 thus ?thesis using fl_nonpos[of x] fl_nonneg[of y] by simp
  next
    case 3
    hence "fl (- y) \<le> fl (- x)" using assms by (intro fl_mono_pos) simp_all
    thus ?thesis by (simp add: fl_minus)
  qed
qed

subsection \<open>Parsing a colour\<close>

lemma digit_value_SomeD:
  assumes "digit_value c = Some d"
  shows "\<not> py_isspace c" "c \<noteq> CHR ''+''" "c \<noteq> CHR ''-''" "c \<noteq> CHR ''_''"
    "c \<noteq> CHR ''x''" "c \<noteq> CHR ''X''" "c \<noteq> CHR ''#''" "d < 16"
  using assms by (auto simp: digit_value_def py_isspace_def Let_def split: if_splits)

lemma py_int16_pair:
  assumes "digit_value a = Some x" and "digit_value b = Some y"
  shows "py_int16 [a, b] = Inr (16 * int x + int y)"
  using digit_value_SomeD[OF assms(1)] digit_value_SomeD[OF assms(2)] assms
  by (simp add: py_int16_def strip_sign_def strip_prefix16_def)





lemma hex_to_rgb_six:
  assumes "six_hex_digits h"
  shows "hex_to_rgb (replicate n (CHR ''#'') @ h) =
           Inr (16 * hexval (h ! 0) + hexval (h ! 1),
                16 * hexval (h ! 2) + hexval (h ! 3),
                16 * hexval (h ! 4) + hexval (h ! 5))"
proof -
  from assms obtain a b c d e f where h: "h = [a, b, c, d, e, f]"
    by (auto simp: six_hex_digits_def length_Suc_conv eval_nat_numeral)
  from assms h obtain va vb vc vd ve vf where
    v: "digit_value a = Some va" "digit_value b = Some vb" "digit_value c = Some vc"
       "digit_value d = Some vd" "digit_value e = Some ve" "digit_value f = Some vf"
    by (auto simp: six_hex_digits_def is_hexdigit_def)
  have "a \<noteq> CHR ''#''" using digit_value_SomeD(7)[OF v(1)] .
  hence "lstrip ''#'' (replicate n (CHR ''#'') @ h) = h"
    by (simp add: h dropWhile_append lstrip_def)
  thus ?thesis
    by (simp add: hex_to_rgb_def bind_def h hexval_def v
        py_int16_pair[OF v(1) v(2)] py_int16_pair[OF v(3) v(4)] py_int16_pair[OF v(5) v(6)])
qed



lemma hex_consts:
  "hex_to_rgb COLOR_START = Inr (112, 209, 199)"
  "hex_to_rgb COLOR_END = Inr (91, 191, 181)"
  "hex_to_rgb COLOR_TEXT = Inr (255, 255, 255)"
  by (simp_all add: hex_to_rgb_six[of _ 1, simplified] six_hex_digits_def is_hexdigit_def
      digit_value_def hexval_def COLOR_START_def COLOR_END_def COLOR_TEXT_def)


















subsection \<open>Interpolation\<close>

lemma bind_Inr: "bind (Inr v) f = f v" by (simp add: bind_def)
lemma bind_Inl: "bind (Inl e) f = Inl e" by (simp add: bind_def)

lemma of_int_abs_le_numeral: "\<bar>n\<bar> \<le> numeral k \<Longrightarrow> \<bar>of_int n :: rat\<bar> \<le> numeral k"
  unfolding of_int_abs[symmetric] by (metis of_int_le_iff of_int_numeral)

text \<open>One channel of \<open>interpolate_color\<close>.\<close>

lemma channel_eval:
  assumes "\<bar>a\<bar> \<le> 255" "\<bar>b\<bar> \<le> 255" "\<bar>f\<bar> \<le> 2 ^ 1000"
  shows "bind (bind (int_mul_float (b - a) (Finite f)) (int_add_float a)) py_int
           = Inr (trunc (interp_value a b f))"
proof -
  define d where "d = b - a"
  define p where "p = fl (of_int d * f)"
  have d: "\<bar>d\<bar> \<le> 510" using assms by (simp add: d_def)
  hence dq: "\<bar>of_int d :: rat\<bar> \<le> 510" by (rule of_int_abs_le_numeral)
  have "\<bar>of_int d * f\<bar> \<le> 510 * 2 ^ 1000"
    unfolding abs_mult using dq assms(3) by (intro mult_mono) simp_all
  hence x: "\<bar>of_int d * f\<bar> \<le> 2 ^ 1010" by simp
  hence x': "\<bar>of_int d * f\<bar> \<le> 2 ^ 1023" by simp
  have "float_of_int d = Inr (Finite (of_int d))" using d by (intro float_of_int_small) simp
  hence m: "int_mul_float d (Finite f) = Inr (Finite p)"
    by (simp add: int_mul_float_def bind_Inr to_float_finite[OF x'] p_def)
  have pb: "\<bar>p\<bar> \<le> 2 ^ 1010" unfolding p_def using x by (rule fl_abs_le_pow2)
  have aq: "\<bar>of_int a :: rat\<bar> \<le> 255" using assms(1) by (rule of_int_abs_le_numeral)
  have "\<bar>of_int a + p\<bar> \<le> 255 + 2 ^ 1010" using aq pb by linarith
  hence s: "\<bar>of_int a + p\<bar> \<le> 2 ^ 1023" by simp
  have "float_of_int a = Inr (Finite (of_int a))" using assms(1) by (intro float_of_int_small) simp
  hence a': "int_add_float a (Finite p) = Inr (Finite (fl (of_int a + p)))"
    by (simp add: int_add_float_def bind_Inr to_float_finite[OF s])
  have "bind (bind (int_mul_float d (Finite f)) (int_add_float a)) py_int
          = Inr (trunc (fl (of_int a + p)))"
    by (simp only: m a' bind_Inr py_int.simps)
  thus ?thesis by (simp only: interp_value_def p_def d_def)
qed

lemma interp_value_unit:
  assumes "0 \<le> a" "a \<le> 255" "0 \<le> b" "b \<le> 255" "0 \<le> f" "f \<le> 1"
  shows "of_int (min a b) \<le> interp_value a b f" and "interp_value a b f \<le> of_int (max a b)"
proof -
  define d where "d = b - a"
  define p where "p = fl (of_int d * f)"
  have small: "\<bar>min a b\<bar> < 2 ^ 53" "\<bar>max a b\<bar> < 2 ^ 53" "\<bar>d\<bar> < 2 ^ 53" "\<bar>0::int\<bar> < 2 ^ 53"
    using assms by (simp_all add: d_def)
  have pb: "of_int (min d 0) \<le> p \<and> p \<le> of_int (max d 0)"
  proof (cases "0 \<le> d")
    case True
    hence "(0::rat) \<le> of_int d" by simp
    hence "of_int 0 \<le> of_int d * f" "of_int d * f \<le> of_int d"
      using assms(5,6) by (simp_all add: mult_left_le)
    from fl_between_ints[OF this small(4,3)] True show ?thesis by (simp add: p_def)
  next
    case False
    hence dn: "of_int d \<le> (0::rat)" by simp
    have "0 \<le> of_int d * (f - 1)" using dn assms(6) by (intro mult_nonpos_nonpos) simp_all
    hence "of_int d \<le> of_int d * f" by (simp add: algebra_simps)
    moreover have "of_int d * f \<le> of_int 0"
      using dn assms(5) by (simp add: mult_nonpos_nonneg)
    ultimately show ?thesis
      using fl_between_ints[OF _ _ small(3,4), of "of_int d * f"] False by (simp add: p_def)
  qed
  have "(of_int a :: rat) + of_int d = of_int b" by (simp add: d_def)
  hence "of_int (min a b) \<le> of_int a + p" "of_int a + p \<le> of_int (max a b)"
    using pb by (auto simp: min_def max_def split: if_splits)
  from fl_between_ints[OF this small(1,2)]
  show "of_int (min a b) \<le> interp_value a b f" and "interp_value a b f \<le> of_int (max a b)"
    by (simp_all add: interp_value_def p_def d_def)
qed

lemma interpolate_color_eval:
  assumes "hex_to_rgb c1 = Inr (r1, g1, b1)" "hex_to_rgb c2 = Inr (r2, g2, b2)"
    and "\<bar>r1\<bar> \<le> 255" "\<bar>g1\<bar> \<le> 255" "\<bar>b1\<bar> \<le> 255"
    and "\<bar>r2\<bar> \<le> 255" "\<bar>g2\<bar> \<le> 255" "\<bar>b2\<bar> \<le> 255"
    and "\<bar>f\<bar> \<le> 2 ^ 1000"
  shows "interpolate_color c1 c2 (Finite f) =
           Inr (trunc (interp_value r1 r2 f), trunc (interp_value g1 g2 f), trunc (interp_value b1 b2 f))"
  unfolding interpolate_color_def
  by (simp only: assms(1,2) bind_Inr prod.case
      channel_eval[OF assms(3,6,9)] channel_eval[OF assms(4,7,9)] channel_eval[OF assms(5,8,9)])

lemma trunc_of_int: "trunc (of_int n) = n"
  by (simp add: trunc_def)

lemma trunc_nonneg: "0 \<le> x \<Longrightarrow> trunc x = \<lfloor>x\<rfloor>"
  by (simp add: trunc_def)

lemma interp_value_same:
  assumes "\<bar>a\<bar> \<le> 255"
  shows "interp_value a a f = of_int a"
  using assms by (simp add: interp_value_def fl_zero fl_of_int)

lemma interp_value_0:
  assumes "\<bar>a\<bar> \<le> 255"
  shows "interp_value a b 0 = of_int a"
  using assms by (simp add: interp_value_def fl_zero fl_of_int)

lemma interp_value_1:
  assumes "\<bar>a\<bar> \<le> 255" "\<bar>b\<bar> \<le> 255"
  shows "interp_value a b 1 = of_int b"
proof -
  have "\<bar>b - a\<bar> < 2 ^ 53" "\<bar>b\<bar> < 2 ^ 53" using assms by simp_all
  hence "fl (of_int (b - a)) = of_int (b - a)" "fl (of_int b) = of_int b"
    by (simp_all only: fl_of_int)
  moreover have "(of_int a :: rat) + of_int (b - a) = of_int b" by simp
  ultimately show ?thesis by (simp only: interp_value_def mult_1_right)
qed

lemma fl_half_255: "fl (255 / 2) = 255 / 2" "fl (- (255 / 2)) = - (255 / 2)"
  using fl_exact[of 255 "- 1"] by (simp_all add: fl_minus)

lemma interp_value_half:
  "interp_value 0 255 (1 / 2) = 255 / 2" "interp_value 0 255 (- (1 / 2)) = - (255 / 2)"
  by (simp_all add: interp_value_def fl_half_255)

lemma hex_black_white:
  "hex_to_rgb ''#000000'' = Inr (0, 0, 0)" "hex_to_rgb ''#FFFFFF'' = Inr (255, 255, 255)"
  by (simp_all add: hex_to_rgb_six[of _ 1, simplified] six_hex_digits_def is_hexdigit_def
      digit_value_def hexval_def)

text \<open>
  C5, as amended. For two colours with channels between 0 and 255 and every factor of
  magnitude at most \<open>2 ^ 1000\<close>, inside or outside the unit interval, each channel of
  \<open>interpolate_color\<close> is the double-precision value of \<open>a + (b - a) * factor\<close>
  truncated toward zero: its floor when the value is not negative, which is so for
  every factor between 0 and 1, and its ceiling when it is negative.
\<close>

theorem interpolate_color_truncates:
  assumes "hex_to_rgb c1 = Inr (r1, g1, b1)" and "hex_to_rgb c2 = Inr (r2, g2, b2)"
    and "0 \<le> r1 \<and> r1 \<le> 255 \<and> 0 \<le> g1 \<and> g1 \<le> 255 \<and> 0 \<le> b1 \<and> b1 \<le> 255"
    and "0 \<le> r2 \<and> r2 \<le> 255 \<and> 0 \<le> g2 \<and> g2 \<le> 255 \<and> 0 \<le> b2 \<and> b2 \<le> 255"
    and "\<bar>f\<bar> \<le> 2 ^ 1000"
  shows "interpolate_color c1 c2 (Finite f) =
           Inr (trunc (interp_value r1 r2 f), trunc (interp_value g1 g2 f),
                trunc (interp_value b1 b2 f))
       \<and> (\<forall>a b. trunc (interp_value a b f) =
             (if 0 \<le> interp_value a b f then \<lfloor>interp_value a b f\<rfloor>
              else \<lceil>interp_value a b f\<rceil>))
       \<and> (0 \<le> f \<and> f \<le> 1 \<longrightarrow>
             trunc (interp_value r1 r2 f) = \<lfloor>interp_value r1 r2 f\<rfloor>
           \<and> trunc (interp_value g1 g2 f) = \<lfloor>interp_value g1 g2 f\<rfloor>
           \<and> trunc (interp_value b1 b2 f) = \<lfloor>interp_value b1 b2 f\<rfloor>)"
proof (intro conjI impI allI)
  show "interpolate_color c1 c2 (Finite f) =
           Inr (trunc (interp_value r1 r2 f), trunc (interp_value g1 g2 f),
                trunc (interp_value b1 b2 f))"
    using assms by (intro interpolate_color_eval) simp_all
next
  fix a b
  show "trunc (interp_value a b f) =
          (if 0 \<le> interp_value a b f then \<lfloor>interp_value a b f\<rfloor> else \<lceil>interp_value a b f\<rceil>)"
    by (simp add: trunc_def)
next
  assume f: "0 \<le> f \<and> f \<le> 1"
  have nonneg: "0 \<le> interp_value a b f" if "0 \<le> a" "a \<le> 255" "0 \<le> b" "b \<le> 255" for a b
  proof -
    have "(0::rat) \<le> of_int (min a b)" using that by simp
    thus ?thesis using interp_value_unit(1)[of a b f] that f by linarith
  qed
  show "trunc (interp_value r1 r2 f) = \<lfloor>interp_value r1 r2 f\<rfloor>"
    using assms(3,4) by (intro trunc_nonneg nonneg) simp_all
  show "trunc (interp_value g1 g2 f) = \<lfloor>interp_value g1 g2 f\<rfloor>"
    using assms(3,4) by (intro trunc_nonneg nonneg) simp_all
  show "trunc (interp_value b1 b2 f) = \<lfloor>interp_value b1 b2 f\<rfloor>"
    using assms(3,4) by (intro trunc_nonneg nonneg) simp_all
qed

theorem interpolate_color_truncates_witness:
  "hex_to_rgb ''#000000'' = Inr (0, 0, 0) \<and> hex_to_rgb ''#FFFFFF'' = Inr (255, 255, 255)
   \<and> \<bar>1 / 2 :: rat\<bar> \<le> 2 ^ 1000 \<and> (0::rat) \<le> 1 / 2 \<and> (1 / 2 :: rat) \<le> 1
   \<and> interpolate_color ''#000000'' ''#FFFFFF'' (Finite (1 / 2)) = Inr (127, 127, 127)
   \<and> trunc (interp_value 0 255 (1 / 2)) = \<lfloor>interp_value 0 255 (1 / 2)\<rfloor>"
  using interpolate_color_truncates[of "''#000000''" 0 0 0 "''#FFFFFF''" 255 255 255 "1 / 2"]
  by (simp add: hex_black_white interp_value_half trunc_def rat_floor_simps)

text \<open>
  C5 as stated fails below zero: from black to white at factor \<open>- 0.5\<close> the value is
  \<open>- 127.5\<close>, whose floor is \<open>- 128\<close>, and the code returns \<open>- 127\<close>.
\<close>

theorem interpolate_color_not_floor:
  "interpolate_color ''#000000'' ''#FFFFFF'' (Finite (- 1 / 2)) = Inr (- 127, - 127, - 127)
   \<and> \<lfloor>(0::rat) + (255 - 0) * (- 1 / 2)\<rfloor> = - 128"
  using interpolate_color_eval[of "''#000000''" 0 0 0 "''#FFFFFF''" 255 255 255 "- 1 / 2"]
  by (simp add: hex_black_white interp_value_half trunc_def rat_floor_simps)

text \<open>
  C8. Interpolating a colour with itself gives that colour for every factor between 0
  and 1; factor 0 gives the first colour and factor 1 the second, exactly.
\<close>

theorem interpolate_color_endpoints:
  assumes "hex_to_rgb cA = Inr (r1, g1, b1)" and "hex_to_rgb cB = Inr (r2, g2, b2)"
    and "0 \<le> r1 \<and> r1 \<le> 255 \<and> 0 \<le> g1 \<and> g1 \<le> 255 \<and> 0 \<le> b1 \<and> b1 \<le> 255"
    and "0 \<le> r2 \<and> r2 \<le> 255 \<and> 0 \<le> g2 \<and> g2 \<le> 255 \<and> 0 \<le> b2 \<and> b2 \<le> 255"
    and "0 \<le> f" and "f \<le> 1"
  shows "interpolate_color cA cA (Finite f) = Inr (r1, g1, b1)
       \<and> interpolate_color cA cB (Finite 0) = Inr (r1, g1, b1)
       \<and> interpolate_color cA cB (Finite 1) = Inr (r2, g2, b2)"
proof -
  have f: "\<bar>f\<bar> \<le> 2 ^ 1000" "\<bar>0::rat\<bar> \<le> 2 ^ 1000" "\<bar>1::rat\<bar> \<le> 2 ^ 1000"
    using assms(5,6) by simp_all
  have a: "\<bar>r1\<bar> \<le> 255" "\<bar>g1\<bar> \<le> 255" "\<bar>b1\<bar> \<le> 255"
    and b: "\<bar>r2\<bar> \<le> 255" "\<bar>g2\<bar> \<le> 255" "\<bar>b2\<bar> \<le> 255"
    using assms(3,4) by simp_all
  show ?thesis
    by (simp add: interpolate_color_eval[OF assms(1) assms(1) a a f(1)]
        interpolate_color_eval[OF assms(1,2) a b f(2)]
        interpolate_color_eval[OF assms(1,2) a b f(3)]
        interp_value_same interp_value_0 interp_value_1 a b trunc_of_int)
qed

theorem interpolate_color_endpoints_witness:
  "hex_to_rgb COLOR_START = Inr (112, 209, 199) \<and> hex_to_rgb COLOR_END = Inr (91, 191, 181)
   \<and> (0::rat) \<le> 1 / 2 \<and> (1 / 2 :: rat) \<le> 1
   \<and> interpolate_color COLOR_START COLOR_START (Finite (1 / 2)) = Inr (112, 209, 199)
   \<and> interpolate_color COLOR_START COLOR_END (Finite 0) = Inr (112, 209, 199)
   \<and> interpolate_color COLOR_START COLOR_END (Finite 1) = Inr (91, 191, 181)"
  using interpolate_color_endpoints[of COLOR_START 112 209 199 COLOR_END 91 191 181 "1 / 2"]
  by (simp add: hex_consts)

subsection \<open>Font size and corner radius\<close>

lemma floor_45: "\<lfloor>(45 / 100 :: rat) * of_int n\<rfloor> = 9 * n div 20"
proof -
  have "(45 / 100 :: rat) * of_int n = of_int (9 * n) / of_int 20" by simp
  thus ?thesis by (simp only: floor_divide_of_int_eq)
qed

lemma floor_02: "\<lfloor>(2 / 10 :: rat) * of_int n\<rfloor> = n div 5"
proof -
  have "(2 / 10 :: rat) * of_int n = of_int n / of_int 5" by simp
  thus ?thesis by (simp only: floor_divide_of_int_eq)
qed

lemma draw_text_eval:
  assumes "0 \<le> sz" and "sz < 2 ^ 48"
  shows "draw_text e img text sz =
           (case textbbox e (load_font e (9 * sz div 20)) text of (b0, b1, b2, b3) \<Rightarrow>
              Inr (ImageDraw_text e img ((sz - (b2 - b0)) div 2, (sz - (b3 - b1)) div 2 - b1)
                     text (255, 255, 255) (load_font e (9 * sz div 20))))"
  by (simp add: draw_text_def font_size_eq[OF assms] bind_Inr hex_consts Let_def split: prod.splits)

text \<open>
  C6, as amended. For every size with \<open>0 < size < 2 ^ 48\<close>, \<open>draw_text\<close> takes as font
  size \<open>int(size * 0.45)\<close>, which is \<open>0.45 * size\<close> rounded down, and loads the font
  at that size. It is \<open>round(0.45 * size)\<close> for the five configured sizes.
\<close>

theorem font_size_truncates:
  assumes "0 < sz" and "sz < 2 ^ 48"
  shows "font_size sz = Inr \<lfloor>(45 / 100 :: rat) * of_int sz\<rfloor>
       \<and> draw_text e img text sz =
           (case textbbox e (load_font e \<lfloor>(45 / 100 :: rat) * of_int sz\<rfloor>) text of
              (b0, b1, b2, b3) \<Rightarrow>
                Inr (ImageDraw_text e img ((sz - (b2 - b0)) div 2, (sz - (b3 - b1)) div 2 - b1)
                       text (255, 255, 255) (load_font e \<lfloor>(45 / 100 :: rat) * of_int sz\<rfloor>)))
       \<and> (sz \<in> set (map cfg_size ICON_CONFIGS) \<longrightarrow> font_size sz = Inr (spec_font_size sz))"
proof -
  have sz: "0 \<le> sz" using assms(1) by simp
  have "sz \<in> set (map cfg_size ICON_CONFIGS) \<longrightarrow> spec_font_size sz = 9 * sz div 20"
    by (auto simp: ICON_CONFIGS_def spec_font_size_def round_def rat_floor_simps)
  thus ?thesis
    unfolding floor_45 by (simp add: font_size_eq[OF sz assms(2)] draw_text_eval[OF sz assms(2)])
qed

theorem font_size_truncates_witness:
  "(0::int) < 16 \<and> (16::int) < 2 ^ 48 \<and> 16 \<in> set (map cfg_size ICON_CONFIGS)
   \<and> font_size 16 = Inr 7 \<and> spec_font_size 16 = 7"
  using font_size_truncates[of 16 env0 blank "''TB''"]
  by (simp add: ICON_CONFIGS_def spec_font_size_def round_def rat_floor_simps)

text \<open>
  C6 as stated fails at size 4: \<open>0.45 * 4 = 1.8\<close> rounds to 2, and the code takes 1.
\<close>

theorem font_size_not_rounded: "font_size 4 = Inr 1 \<and> spec_font_size 4 = 2"
  using font_size_eq[of 4] by (simp add: spec_font_size_def round_def rat_floor_simps)

lemma generate_icon_eval:
  assumes "0 \<le> cfg_size config" and "cfg_size config < 2 ^ 50"
  shows "generate_icon e config output_dir w =
           bind (create_gradient_background (cfg_size config)) (\<lambda>img.
           bind (add_rounded_corners e img (cfg_size config div 5)) (\<lambda>img.
           bind (draw_text e img ''TB'' (cfg_size config)) (\<lambda>img.
           bind (save e img (output_dir @ [cfg_name config]) ''PNG'' w) (\<lambda>w.
           print e (Generated (cfg_name config) (cfg_size config)) w))))"
  by (simp add: generate_icon_def Let_def radius_eq[OF assms] bind_Inr)

text \<open>
  C7, as amended. For every icon of size \<open>0 < size < 2 ^ 50\<close> the radius passed to
  \<open>add_rounded_corners\<close> is \<open>int(size * 0.2)\<close>, which is \<open>0.2 * size\<close> rounded down; it
  equals \<open>0.2 * size\<close> exactly when 5 divides the size. The configured sizes give 3, 6,
  36, 38 and 102.
\<close>

theorem radius_truncates:
  assumes "0 < cfg_size config" and "cfg_size config < 2 ^ 50"
  shows "radius (cfg_size config) = Inr \<lfloor>(2 / 10 :: rat) * of_int (cfg_size config)\<rfloor>
       \<and> generate_icon e config output_dir w =
           bind (create_gradient_background (cfg_size config)) (\<lambda>img.
           bind (add_rounded_corners e img \<lfloor>(2 / 10 :: rat) * of_int (cfg_size config)\<rfloor>) (\<lambda>img.
           bind (draw_text e img ''TB'' (cfg_size config)) (\<lambda>img.
           bind (save e img (output_dir @ [cfg_name config]) ''PNG'' w) (\<lambda>w.
           print e (Generated (cfg_name config) (cfg_size config)) w))))
       \<and> ((of_int \<lfloor>(2 / 10 :: rat) * of_int (cfg_size config)\<rfloor> = (2 / 10 :: rat) * of_int (cfg_size config))
            = (5 dvd cfg_size config))
       \<and> map (\<lambda>c. radius (cfg_size c)) ICON_CONFIGS = [Inr 3, Inr 6, Inr 36, Inr 38, Inr 102]"
proof -
  have sz: "0 \<le> cfg_size config" using assms(1) by simp
  have "(of_int (cfg_size config div 5) = (2 / 10 :: rat) * of_int (cfg_size config))
          = (5 dvd cfg_size config)"
  proof
    assume "of_int (cfg_size config div 5) = (2 / 10 :: rat) * of_int (cfg_size config)"
    hence "(of_int (5 * (cfg_size config div 5)) :: rat) = of_int (cfg_size config)" by simp
    hence "5 * (cfg_size config div 5) = cfg_size config" by (simp only: of_int_eq_iff)
    thus "5 dvd cfg_size config" by (metis dvd_triv_left)
  next
    assume "5 dvd cfg_size config"
    then obtain k where "cfg_size config = 5 * k" ..
    thus "of_int (cfg_size config div 5) = (2 / 10 :: rat) * of_int (cfg_size config)" by simp
  qed
  moreover have "map (\<lambda>c. radius (cfg_size c)) ICON_CONFIGS = [Inr 3, Inr 6, Inr 36, Inr 38, Inr 102]"
    by (simp add: ICON_CONFIGS_def radius_eq)
  ultimately show ?thesis
    unfolding floor_02 by (simp add: radius_eq[OF sz assms(2)] generate_icon_eval[OF sz assms(2)])
qed

theorem radius_truncates_witness:
  "(0::int) < cfg_size (ICON_CONFIGS ! 0) \<and> cfg_size (ICON_CONFIGS ! 0) < 2 ^ 50
   \<and> cfg_size (ICON_CONFIGS ! 0) = 16 \<and> radius 16 = Inr 3"
  using radius_truncates[of "ICON_CONFIGS ! 0" env0 "[''wwwroot'', ''icons'']" world0]
  by (simp add: ICON_CONFIGS_def rat_floor_simps)

text \<open>C7 as stated fails at size 16: the radius is 3, and \<open>0.2 * 16 = 3.2\<close>.\<close>

theorem radius_not_fifth: "radius 16 = Inr 3 \<and> (of_int 3 :: rat) \<noteq> 2 / 10 * of_int 16"
  using radius_eq[of 16] by simp

subsection \<open>The gradient\<close>

lemma trunc_interp_unit:
  assumes "0 \<le> a" "a \<le> 255" "0 \<le> b" "b \<le> 255" "0 \<le> f" "f \<le> 1"
  shows "0 \<le> trunc (interp_value a b f)" and "trunc (interp_value a b f) \<le> 255"
proof -
  note iv = interp_value_unit[OF assms]
  have lo: "(0::rat) \<le> of_int (min a b)" and hi: "(of_int (max a b) :: rat) \<le> 255"
    using assms by simp_all
  have nonneg: "0 \<le> interp_value a b f" using iv(1) lo by linarith
  hence t: "trunc (interp_value a b f) = \<lfloor>interp_value a b f\<rfloor>" by (rule trunc_nonneg)
  show "0 \<le> trunc (interp_value a b f)" using nonneg by (simp add: t)
  have "interp_value a b f \<le> of_int 255" using iv(2) hi by linarith
  hence "\<lfloor>interp_value a b f\<rfloor> \<le> \<lfloor>of_int 255 :: rat\<rfloor>" by (rule floor_mono)
  thus "trunc (interp_value a b f) \<le> 255" by (simp add: t)
qed

lemma row_step:
  assumes "0 \<le> y" and "y < sz"
  shows "truediv y sz = Inr (Finite (row_factor sz y))"
    and "interpolate_color COLOR_START COLOR_END (Finite (row_factor sz y)) = Inr (row_color sz y)"
    and "0 \<le> row_factor sz y" and "row_factor sz y \<le> 1"
  using truediv_unit[OF assms] 
  by (simp_all add: row_factor_def row_color_def Let_def
      interpolate_color_eval[OF hex_consts(1,2)])

lemma row_color_range:
  assumes "0 \<le> y" and "y < sz"
  shows "\<exists>r g b. row_color sz y = (r, g, b) \<and> 0 \<le> r \<and> r \<le> 255 \<and> 0 \<le> g \<and> g \<le> 255
           \<and> 0 \<le> b \<and> b \<le> 255"
  using row_step(3,4)[OF assms]
  by (simp add: row_color_def Let_def trunc_interp_unit)

lemma draw_line_row:
  assumes "0 \<le> y" and "y < sz"
  shows "draw_line img 0 sz y (row_color sz y) =
           img\<lparr>pixel := (\<lambda>x' y'. if y' = y \<and> 0 \<le> x' \<and> x' \<le> sz \<and> inside img x' y'
                                 then opaque (row_color sz y) else pixel img x' y')\<rparr>"
proof -
  from row_color_range[OF assms] obtain r g b where
    c: "row_color sz y = (r, g, b)" "0 \<le> r" "r \<le> 255" "0 \<le> g" "g \<le> 255" "0 \<le> b" "b \<le> 255"
    by blast
  have clip: "clip8 r = r" "clip8 g = g" "clip8 b = b" using c by (simp_all add: clip8_def)
  have mm: "min 0 sz = 0" "max 0 sz = sz" using assms by simp_all
  have "(\<lambda>x' y'. if y' = y \<and> min 0 sz \<le> x' \<and> x' \<le> max 0 sz \<and> inside img x' y'
                  then (clip8 r, clip8 g, clip8 b, 255) else pixel img x' y')
      = (\<lambda>x' y'. if y' = y \<and> 0 \<le> x' \<and> x' \<le> sz \<and> inside img x' y'
                  then opaque (r, g, b) else pixel img x' y')"
    by (simp add: opaque_def clip mm cong: if_cong)
  thus ?thesis unfolding c(1) by (simp only: draw_line_def prod.case)
qed

lemma gradient_rows_result:
  assumes "\<forall>y\<in>set ys. 0 \<le> y \<and> y < sz"
  shows "\<exists>img'. gradient_rows sz ys img = Inr img' \<and> width img' = width img
           \<and> height img' = height img
           \<and> (\<forall>x y. pixel img' x y =
                 (if y \<in> set ys \<and> 0 \<le> x \<and> x \<le> sz \<and> inside img x y
                  then opaque (row_color sz y) else pixel img x y))"
  using assms
proof (induction ys arbitrary: img)
  case Nil
  show ?case by simp
next
  case (Cons y ys)
  hence y: "0 \<le> y" "y < sz" and ys: "\<forall>y\<in>set ys. 0 \<le> y \<and> y < sz" by simp_all
  define img1 where "img1 = draw_line img 0 sz y (row_color sz y)"
  have step: "gradient_rows sz (y # ys) img = gradient_rows sz ys img1"
    by (simp add: row_step(1,2)[OF y] bind_Inr img1_def)
  have img1: "width img1 = width img" "height img1 = height img"
    "\<And>x' y'. inside img1 x' y' = inside img x' y'"
    "\<And>x' y'. pixel img1 x' y' = (if y' = y \<and> 0 \<le> x' \<and> x' \<le> sz \<and> inside img x' y'
                                 then opaque (row_color sz y) else pixel img x' y')"
    by (simp_all add: img1_def draw_line_row[OF y] inside_def)
  from Cons.IH[OF ys, of img1] obtain img' where
    r: "gradient_rows sz ys img1 = Inr img'" "width img' = width img1" "height img' = height img1"
       "\<And>x y. pixel img' x y = (if y \<in> set ys \<and> 0 \<le> x \<and> x \<le> sz \<and> inside img1 x y
                                  then opaque (row_color sz y) else pixel img1 x y)"
    by blast
  have res: "gradient_rows sz (y # ys) img = Inr img'" by (simp only: step r(1))
  have px: "pixel img' x' y' =
      (if y' \<in> set (y # ys) \<and> 0 \<le> x' \<and> x' \<le> sz \<and> inside img x' y'
       then opaque (row_color sz y') else pixel img x' y')" for x' y'
    by (auto simp: r(4) img1(3,4))
  show ?case
    using res r(2,3) img1(1,2) px by (intro exI[of _ img']) (simp only: simp_thms)
qed

lemma create_gradient_background_result:
  assumes "0 \<le> sz"
  shows "\<exists>img. create_gradient_background sz = Inr img \<and> width img = sz \<and> height img = sz
           \<and> (\<forall>x y. 0 \<le> x \<and> x < sz \<and> 0 \<le> y \<and> y < sz \<longrightarrow>
                 pixel img x y = opaque (row_color sz y))"
proof -
  define img0 :: "rgba image" where "img0 = \<lparr>width = sz, height = sz, pixel = (\<lambda>x y. (0, 0, 0, 0))\<rparr>"
  have new: "Image_new sz sz (0, 0, 0, 0) = Inr img0" using assms by (simp add: Image_new_def img0_def)
  have rows: "\<forall>y\<in>set (map int [0..<nat sz]). 0 \<le> y \<and> y < sz" by auto
  have mem: "y \<in> set (map int [0..<nat sz])" if "0 \<le> y" "y < sz" for y
  proof -
    have "nat y \<in> set [0..<nat sz]" using that by simp
    hence "int (nat y) \<in> set (map int [0..<nat sz])" by (simp only: set_map image_eqI)
    thus ?thesis using that by simp
  qed
  from gradient_rows_result[OF rows, of img0] obtain img where
    r: "gradient_rows sz (map int [0..<nat sz]) img0 = Inr img" "width img = width img0"
       "height img = height img0"
       "\<And>x y. pixel img x y =
          (if y \<in> set (map int [0..<nat sz]) \<and> 0 \<le> x \<and> x \<le> sz \<and> inside img0 x y
           then opaque (row_color sz y) else pixel img0 x y)"
    by blast
  have "pixel img x y = opaque (row_color sz y)" if "0 \<le> x" "x < sz" "0 \<le> y" "y < sz" for x y
    using that mem[OF that(3,4)] by (simp add: r(4) inside_def img0_def)
  moreover have "create_gradient_background sz = Inr img"
    by (simp only: create_gradient_background_def new bind_Inr r(1))
  moreover have "width img = sz" "height img = sz" by (simp_all add: r(2,3) img0_def)
  ultimately show ?thesis by blast
qed

lemma row_factor_0: "row_factor sz 0 = 0"
  by (simp add: row_factor_def fl_zero)

lemma row_color_0: "row_color sz 0 = (112, 209, 199)"
  by (simp add: row_color_def row_factor_0 Let_def interp_value_0 trunc_def)

lemma row_factor_mono:
  assumes "0 \<le> y" and "y < sz"
  shows "row_factor sz y \<le> row_factor sz (sz - 1)"
proof -
  have "(of_int y :: rat) \<le> of_int (sz - 1)" using assms by simp
  moreover have "(0::rat) < of_int sz" using assms by simp
  ultimately have "(of_int y :: rat) / of_int sz \<le> of_int (sz - 1) / of_int sz"
    by (simp only: divide_right_mono less_imp_le)
  thus ?thesis unfolding row_factor_def by (rule fl_mono)
qed

text \<open>A channel that decreases from \<open>a\<close> to \<open>b\<close> reaches \<open>b\<close> once the factor is high enough.\<close>

lemma interp_reaches_end:
  assumes "b < a" "\<bar>a\<bar> \<le> 255" "0 \<le> b" "b \<le> 255"
    and "lo \<le> f" "f \<le> 1"
    and "fl (of_int (b - a) * lo) = of_int (b - a) * lo"
    and "of_int a + of_int (b - a) * lo \<le> of_int m * 2 powi j"
    and "of_int m * 2 powi j < (of_int b :: rat) + 1"
    and "\<bar>m\<bar> < 2 ^ 53" "- 1074 \<le> j"
  shows "trunc (interp_value a b f) = b"
proof -
  define d where "d = b - a"
  define p where "p = fl (of_int d * f)"
  have dn: "(of_int d :: rat) < 0" using assms(1) by (simp add: d_def)
  have fd: "fl (of_int d) = of_int d" using assms(2,3,4) by (intro fl_of_int) (simp add: d_def)
  have "0 \<le> of_int d * (f - 1)" using dn assms(6) by (intro mult_nonpos_nonpos) simp_all
  hence "of_int d \<le> of_int d * f" by (simp add: algebra_simps)
  hence p1: "of_int d \<le> p" unfolding p_def using fd by (rule fl_ge_fixed)
  have "of_int d * f \<le> of_int d * lo" using dn assms(5) by (simp add: mult_left_mono_neg)
  hence p2: "p \<le> of_int d * lo" unfolding p_def using assms(7)[folded d_def] by (rule fl_le_fixed)
  have "(of_int a :: rat) + of_int d = of_int b" by (simp add: d_def)
  hence x1: "of_int b \<le> of_int a + p" using p1 by linarith
  have x2: "of_int a + p \<le> of_int m * 2 powi j" using p2 assms(8)[folded d_def] by linarith
  have "trunc (fl (of_int a + p)) = b"
    using assms(3,4) by (intro trunc_fl_between[OF _ _ x1 x2 assms(9,10,11)]) simp_all
  thus ?thesis by (simp only: interp_value_def p_def d_def)
qed

lemma fl_61_64: "fl (61 / 64) = 61 / 64"
  using fl_exact[of 61 "- 6"] by simp

lemma row_color_last:
  assumes "22 \<le> sz"
  shows "row_color sz (sz - 1) = (91, 191, 181)"
proof -
  define f where "f = row_factor sz (sz - 1)"
  have sz: "(0::rat) < of_int sz" "(22::rat) \<le> of_int sz" using assms by simp_all
  hence "(61 / 64 :: rat) \<le> of_int (sz - 1) / of_int sz" by (simp add: pos_le_divide_eq)
  hence lo: "61 / 64 \<le> f" unfolding f_def row_factor_def using fl_61_64 by (intro fl_ge_fixed)
  have hi: "f \<le> 1" unfolding f_def using assms by (intro row_step(4)) simp_all
  have e1: "fl (of_int (91 - 112) * (61 / 64)) = of_int (91 - 112) * (61 / 64)"
    using fl_exact[of "- 1281" "- 6"] by simp
  have e2: "fl (of_int (191 - 209) * (61 / 64)) = of_int (191 - 209) * (61 / 64)"
    using fl_exact[of "- 549" "- 5"] by simp
  have e3: "fl (of_int (181 - 199) * (61 / 64)) = of_int (181 - 199) * (61 / 64)"
    using fl_exact[of "- 549" "- 5"] by simp
  have "trunc (interp_value 112 91 f) = 91"
    by (rule interp_reaches_end[OF _ _ _ _ lo hi e1, of 5887 "- 6"]) simp_all
  moreover have "trunc (interp_value 209 191 f) = 191"
    by (rule interp_reaches_end[OF _ _ _ _ lo hi e2, of 6139 "- 5"]) simp_all
  moreover have "trunc (interp_value 199 181 f) = 181"
    by (rule interp_reaches_end[OF _ _ _ _ lo hi e3, of 5819 "- 5"]) simp_all
  ultimately show ?thesis by (simp add: row_color_def Let_def f_def)
qed

lemma fl_dyadics:
  "fl (15 / 16) = 15 / 16" "fl (315 / 16) = 315 / 16" "fl (1477 / 16) = 1477 / 16"
  "fl (135 / 8) = 135 / 8" "fl (1537 / 8) = 1537 / 8" "fl (1457 / 8) = 1457 / 8"
  using fl_exact[of 15 "- 4"] fl_exact[of 315 "- 4"] fl_exact[of 1477 "- 4"]
    fl_exact[of 135 "- 3"] fl_exact[of 1537 "- 3"] fl_exact[of 1457 "- 3"]
  by simp_all

lemma row_color_16_15: "row_color 16 15 = (92, 192, 182)"
  by (simp add: row_color_def row_factor_def Let_def interp_value_def fl_dyadics fl_minus
      trunc_def rat_floor_simps)

text \<open>
  C2. For every positive size the canvas starts as a transparent image of that size,
  and in the result every pixel of row \<open>y\<close> is the colour \<open>interpolate_color\<close> gives for
  the factor \<open>y / size\<close>, at alpha 255.
\<close>

theorem create_gradient_background_rows:
  assumes "0 < sz"
  shows "\<exists>img0 img.
           Image_new sz sz (0, 0, 0, 0) = Inr img0
         \<and> width img0 = sz \<and> height img0 = sz \<and> (\<forall>x y. pixel img0 x y = (0, 0, 0, 0))
         \<and> create_gradient_background sz = gradient_rows sz (map int [0..<nat sz]) img0
         \<and> create_gradient_background sz = Inr img \<and> width img = sz \<and> height img = sz
         \<and> (\<forall>x y. 0 \<le> x \<and> x < sz \<and> 0 \<le> y \<and> y < sz \<longrightarrow>
               (\<exists>factor r g b. truediv y sz = Inr factor
                  \<and> interpolate_color COLOR_START COLOR_END factor = Inr (r, g, b)
                  \<and> pixel img x y = (r, g, b, 255)))"
proof -
  define img0 :: "rgba image" where
    "img0 = \<lparr>width = sz, height = sz, pixel = (\<lambda>x y. (0, 0, 0, 0))\<rparr>"
  have new: "Image_new sz sz (0, 0, 0, 0) = Inr img0"
    using assms by (simp add: Image_new_def img0_def)
  from create_gradient_background_result[of sz] assms obtain img where
    img: "create_gradient_background sz = Inr img" "width img = sz" "height img = sz"
      "\<And>x y. 0 \<le> x \<and> x < sz \<and> 0 \<le> y \<and> y < sz \<Longrightarrow> pixel img x y = opaque (row_color sz y)"
    by auto
  have px: "\<exists>factor r g b. truediv y sz = Inr factor
                  \<and> interpolate_color COLOR_START COLOR_END factor = Inr (r, g, b)
                  \<and> pixel img x y = (r, g, b, 255)"
    if "0 \<le> x \<and> x < sz \<and> 0 \<le> y \<and> y < sz" for x y
  proof -
    obtain r g b where c: "row_color sz y = (r, g, b)" by (cases "row_color sz y")
    have "truediv y sz = Inr (Finite (row_factor sz y))"
      and "interpolate_color COLOR_START COLOR_END (Finite (row_factor sz y)) = Inr (r, g, b)"
      using row_step(1,2)[of y sz] that c by simp_all
    moreover have "pixel img x y = (r, g, b, 255)" using img(4)[OF that] by (simp add: c opaque_def)
    ultimately show ?thesis by blast
  qed
  have "create_gradient_background sz = gradient_rows sz (map int [0..<nat sz]) img0"
    by (simp only: create_gradient_background_def new bind_Inr)
  moreover have "width img0 = sz" "height img0 = sz" "\<forall>x y. pixel img0 x y = (0, 0, 0, 0)"
    by (simp_all add: img0_def)
  ultimately show ?thesis using new img(1,2,3) px by blast
qed

theorem create_gradient_background_rows_witness:
  "(0::int) < 16
   \<and> (\<exists>img. create_gradient_background 16 = Inr img \<and> width img = 16 \<and> height img = 16
          \<and> pixel img 3 0 = (112, 209, 199, 255))"
proof -
  from create_gradient_background_rows[of 16] obtain img where
    img: "create_gradient_background 16 = Inr img" "width img = 16" "height img = 16"
    and px: "\<forall>x y. 0 \<le> x \<and> x < 16 \<and> 0 \<le> y \<and> y < 16 \<longrightarrow>
               (\<exists>factor r g b. truediv y 16 = Inr factor
                  \<and> interpolate_color COLOR_START COLOR_END factor = Inr (r, g, b)
                  \<and> pixel img x y = (r, g, b, 255))"
    by auto
  from px[rule_format, of 3 0] obtain factor r g b where
    f: "truediv 0 16 = Inr factor" "interpolate_color COLOR_START COLOR_END factor = Inr (r, g, b)"
       "pixel img 3 0 = (r, g, b, 255)"
    by auto
  have "truediv 0 16 = Inr (Finite 0)" using row_step(1)[of 0 16] by (simp add: row_factor_0)
  moreover have "interpolate_color COLOR_START COLOR_END (Finite 0) = Inr (112, 209, 199)"
    using row_step(2)[of 0 16] by (simp add: row_factor_0 row_color_0)
  ultimately have "pixel img 3 0 = (112, 209, 199, 255)" using f by simp
  thus ?thesis using img by simp
qed

lemma result_pixel_gradient:
  assumes "0 \<le> x" "x < sz" "0 \<le> y" "y < sz"
  shows "result_pixel (create_gradient_background sz) x y = Some (opaque (row_color sz y))"
proof -
  from create_gradient_background_result[of sz] assms obtain img where
    "create_gradient_background sz = Inr img" "pixel img x y = opaque (row_color sz y)"
    by force
  thus ?thesis by (simp add: result_pixel_def)
qed

text \<open>
  C10, as amended. The factor of row \<open>y\<close> is the double nearest to \<open>y / size\<close>; it lies
  between 0, the factor of row 0, and the factor of the bottom row, which is at most 1.
  Row 0 is painted with the start colour exactly, and the bottom row with
  \<open>interpolate_color\<close> at the factor of \<open>(size - 1) / size\<close>. Because the channels
  decrease and are truncated, that colour is the end colour itself for every size from
  22 on (of the configured sizes: 32, 180, 192, 512); for size 16 it is not.
\<close>

theorem gradient_bottom_row:
  assumes "0 < sz"
  shows "(\<forall>y. 0 \<le> y \<and> y < sz \<longrightarrow>
            truediv y sz = Inr (Finite (row_factor sz y))
          \<and> row_factor sz y = fl (of_int y / of_int sz)
          \<and> 0 \<le> row_factor sz y
          \<and> row_factor sz y \<le> row_factor sz (sz - 1)
          \<and> row_factor sz (sz - 1) \<le> 1)
       \<and> row_factor sz 0 = 0
       \<and> hex_to_rgb COLOR_START = Inr (112, 209, 199)
       \<and> hex_to_rgb COLOR_END = Inr (91, 191, 181)
       \<and> interpolate_color COLOR_START COLOR_END (Finite (row_factor sz (sz - 1)))
            = Inr (row_color sz (sz - 1))
       \<and> (\<forall>x. 0 \<le> x \<and> x < sz \<longrightarrow>
            result_pixel (create_gradient_background sz) x 0 = Some (112, 209, 199, 255)
          \<and> result_pixel (create_gradient_background sz) x (sz - 1)
              = Some (opaque (row_color sz (sz - 1))))
       \<and> (22 \<le> sz \<longrightarrow> row_color sz (sz - 1) = (91, 191, 181))
       \<and> (sz = 16 \<longrightarrow> row_color sz (sz - 1) = (92, 192, 182))"
proof (intro conjI allI impI)
  fix y assume y: "0 \<le> y \<and> y < sz"
  show "truediv y sz = Inr (Finite (row_factor sz y))" using y by (intro row_step(1)) simp_all
  show "row_factor sz y = fl (of_int y / of_int sz)" by (simp add: row_factor_def)
  show "0 \<le> row_factor sz y" using y by (intro row_step(3)) simp_all
  show "row_factor sz y \<le> row_factor sz (sz - 1)" using y by (intro row_factor_mono) simp_all
  show "row_factor sz (sz - 1) \<le> 1" using assms by (intro row_step(4)) simp_all
next
  show "row_factor sz 0 = 0" by (rule row_factor_0)
  show "hex_to_rgb COLOR_START = Inr (112, 209, 199)" by (rule hex_consts(1))
  show "hex_to_rgb COLOR_END = Inr (91, 191, 181)" by (rule hex_consts(2))
  show "interpolate_color COLOR_START COLOR_END (Finite (row_factor sz (sz - 1)))
          = Inr (row_color sz (sz - 1))"
    using assms by (intro row_step(2)) simp_all
next
  fix x assume x: "0 \<le> x \<and> x < sz"
  show "result_pixel (create_gradient_background sz) x 0 = Some (112, 209, 199, 255)"
    using result_pixel_gradient[of x sz 0] x assms by (simp add: row_color_0 opaque_def)
  show "result_pixel (create_gradient_background sz) x (sz - 1)
          = Some (opaque (row_color sz (sz - 1)))"
    using x assms by (intro result_pixel_gradient) simp_all
next
  assume "22 \<le> sz"
  thus "row_color sz (sz - 1) = (91, 191, 181)" by (rule row_color_last)
next
  assume "sz = 16"
  thus "row_color sz (sz - 1) = (92, 192, 182)" by (simp add: row_color_16_15)
qed

theorem gradient_bottom_row_witness:
  "(0::int) < 32 \<and> (22::int) \<le> 32 \<and> (0::int) \<le> 5 \<and> (5::int) < 32
   \<and> result_pixel (create_gradient_background 32) 5 0 = Some (112, 209, 199, 255)
   \<and> result_pixel (create_gradient_background 32) 5 31 = Some (91, 191, 181, 255)
   \<and> (0::int) < 16 \<and> (5::int) < 16
   \<and> result_pixel (create_gradient_background 16) 5 15 = Some (92, 192, 182, 255)"
  using gradient_bottom_row[of 32] gradient_bottom_row[of 16]
  by (simp add: opaque_def)

text \<open>
  C10 as stated fails at the configured size 32: its bottom row is painted with the
  end colour exactly.
\<close>

theorem gradient_reaches_end_color:
  "result_pixel (create_gradient_background 32) 0 31 = Some (91, 191, 181, 255)
   \<and> hex_to_rgb COLOR_END = Inr (91, 191, 181)"
  using result_pixel_gradient[of 0 32 31] row_color_last[of 32]
  by (simp add: opaque_def hex_consts)

subsection \<open>Whole icons\<close>

lemma bind_Inr_iff: "(bind m f = Inr y) = (\<exists>x. m = Inr x \<and> f x = Inr y)"
  by (cases m) (simp_all add: bind_def)

lemma not_Inr_Inl: "(\<forall>y. m \<noteq> Inr y) = (\<exists>err. m = Inl err)"
  by (cases m) simp_all

lemma add_rounded_corners_result:
  assumes "0 \<le> width img" and "height img = width img"
  shows "\<exists>img'. add_rounded_corners e img r = Inr img' \<and> width img' = width img
           \<and> height img' = height img
           \<and> (\<forall>x y. pixel img' x y =
                 (case pixel img x y of (cr, cg, cb, ca) \<Rightarrow>
                    (cr, cg, cb,
                     if inside img x y \<and> rounded_covers e (0, 0) (width img, width img) r x y
                     then 255 else 0)))"
  using assms
  by (simp add: add_rounded_corners_def Let_def Image_new_def bind_Inr putalpha_def
      rounded_rectangle_def inside_def)

lemma draw_text_result:
  assumes "0 \<le> sz" and "sz < 2 ^ 48"
  shows "\<exists>img'. draw_text e img text sz = Inr img' \<and> width img' = width img
           \<and> height img' = height img"
  by (simp add: draw_text_eval[OF assms] ImageDraw_text_def split: prod.splits)

lemma icon_image_result:
  assumes "0 < sz" and "sz < 2 ^ 48"
  shows "\<exists>canvas img. icon_image e sz = Inr img \<and> draw_text e canvas ''TB'' sz = Inr img
           \<and> width img = sz \<and> height img = sz"
proof -
  have sz: "0 \<le> sz" "sz < 2 ^ 50" using assms by simp_all
  from create_gradient_background_result[OF sz(1)] obtain img1 where
    1: "create_gradient_background sz = Inr img1" "width img1 = sz" "height img1 = sz"
    by blast
  from add_rounded_corners_result[of img1 e "sz div 5"] 1 sz obtain img2 where
    2: "add_rounded_corners e img1 (sz div 5) = Inr img2" "width img2 = sz" "height img2 = sz"
    by auto
  from draw_text_result[OF sz(1) assms(2), of e img2 "''TB''"] 2 obtain img3 where
    3: "draw_text e img2 ''TB'' sz = Inr img3" "width img3 = sz" "height img3 = sz"
    by auto
  have "icon_image e sz = Inr img3"
    by (simp only: icon_image_def radius_eq[OF sz] 1(1) 2(1) 3(1) bind_Inr)
  thus ?thesis using 3 by blast
qed

lemma generate_icon_image:
  "generate_icon e c d w =
     bind (icon_image e (cfg_size c)) (\<lambda>img.
     bind (save e img (d @ [cfg_name c]) ''PNG'' w)
          (print e (Generated (cfg_name c) (cfg_size c))))"
  by (simp add: generate_icon_def icon_image_def Let_def bind_def split: sum.splits)


lemma mkdir_Inr_iff:
  "(mkdir e d w = Inr w') =
     ((nodes w d = Some Dir
        \<or> nodes w d = None \<and> nodes w (parent d) = Some Dir \<and> os_error e d = None)
      \<and> w' = w\<lparr>nodes := (nodes w)(d \<mapsto> Dir)\<rparr>)"
proof (cases "nodes w d = Some Dir")
  case True
  hence "(nodes w)(d \<mapsto> Dir) = nodes w" by (simp add: fun_upd_idem)
  thus ?thesis using True by (auto simp: mkdir_def)
next
  case False
  thus ?thesis
    by (auto simp: mkdir_def split: option.splits node.splits)
qed

lemma print_Inr_iff:
  "(print e m w = Inr w') = (stdout_error e m = None \<and> w' = w\<lparr>stdout := stdout w @ [m]\<rparr>)"
  by (auto simp: print_def split: option.splits)

lemma save_Inr_iff:
  assumes "nodes w (parent p) = Some Dir" and "width img \<noteq> 0" and "height img \<noteq> 0"
  shows "(save e img p fmt w = Inr w') =
           (nodes w p \<noteq> Some Dir \<and> os_error e p = None
            \<and> w' = w\<lparr>nodes := (nodes w)(p \<mapsto> Image_file fmt img)\<rparr>)"
  using assms by (auto simp: save_def split: option.splits)

lemma generate_icon_Inr_iff:
  assumes "icon_image e (cfg_size c) = Inr img" and "width img \<noteq> 0" and "height img \<noteq> 0"
    and "nodes w d = Some Dir"
  shows "(generate_icon e c d w = Inr w') =
           (nodes w (d @ [cfg_name c]) \<noteq> Some Dir \<and> os_error e (d @ [cfg_name c]) = None
            \<and> stdout_error e (Generated (cfg_name c) (cfg_size c)) = None
            \<and> w' = w\<lparr>nodes := (nodes w)(d @ [cfg_name c] \<mapsto> Image_file ''PNG'' img),
                     stdout := stdout w @ [Generated (cfg_name c) (cfg_size c)]\<rparr>)"
proof -
  have p: "nodes w (parent (d @ [cfg_name c])) = Some Dir" using assms(4) by (simp add: parent_def)
  have "generate_icon e c d w =
          bind (save e img (d @ [cfg_name c]) ''PNG'' w)
               (print e (Generated (cfg_name c) (cfg_size c)))"
    by (simp only: generate_icon_image assms(1) bind_Inr)
  hence "(generate_icon e c d w = Inr w') =
      (\<exists>x. (nodes w (d @ [cfg_name c]) \<noteq> Some Dir \<and> os_error e (d @ [cfg_name c]) = None
            \<and> x = w\<lparr>nodes := (nodes w)(d @ [cfg_name c] \<mapsto> Image_file ''PNG'' img)\<rparr>)
          \<and> stdout_error e (Generated (cfg_name c) (cfg_size c)) = None
          \<and> w' = x\<lparr>stdout := stdout x @ [Generated (cfg_name c) (cfg_size c)]\<rparr>)"
    by (simp only: bind_Inr_iff save_Inr_iff[OF p assms(2,3)] print_Inr_iff)
  thus ?thesis by auto
qed

lemma generate_all_Inr_iff:
  assumes "\<forall>c\<in>set cs. icon_image e (cfg_size c) = Inr (img c) \<and> width (img c) \<noteq> 0
             \<and> height (img c) \<noteq> 0"
    and "nodes w d = Some Dir"
  shows "(generate_all e cs d w = Inr w') =
           ((\<forall>c\<in>set cs. nodes w (d @ [cfg_name c]) \<noteq> Some Dir
                \<and> os_error e (d @ [cfg_name c]) = None
                \<and> stdout_error e (Generated (cfg_name c) (cfg_size c)) = None)
            \<and> w' = w\<lparr>nodes := fold (\<lambda>c m. m(d @ [cfg_name c] \<mapsto> Image_file ''PNG'' (img c))) cs (nodes w),
                     stdout := stdout w @ map (\<lambda>c. Generated (cfg_name c) (cfg_size c)) cs\<rparr>)"
  using assms
proof (induction cs arbitrary: w)
  case Nil
  have "w\<lparr>nodes := fold (\<lambda>c m. m(d @ [cfg_name c] \<mapsto> Image_file ''PNG'' (img c))) [] (nodes w),
          stdout := stdout w @ map (\<lambda>c. Generated (cfg_name c) (cfg_size c)) []\<rparr> = w"
    by simp
  thus ?case by (simp add: eq_commute[of w w'])
next
  case (Cons c cs)
  define p where "p = d @ [cfg_name c]"
  define m where "m = Generated (cfg_name c) (cfg_size c)"
  define ok where "ok = (\<lambda>c::icon_config. os_error e (d @ [cfg_name c]) = None
                \<and> stdout_error e (Generated (cfg_name c) (cfg_size c)) = None)"
  define w1 where "w1 = w\<lparr>nodes := (nodes w)(p \<mapsto> Image_file ''PNG'' (img c)),
                     stdout := stdout w @ [m]\<rparr>"
  have c: "icon_image e (cfg_size c) = Inr (img c)" "width (img c) \<noteq> 0" "height (img c) \<noteq> 0"
    using Cons.prems(1) by simp_all
  have rest: "\<forall>c\<in>set cs. icon_image e (cfg_size c) = Inr (img c) \<and> width (img c) \<noteq> 0
             \<and> height (img c) \<noteq> 0"
    using Cons.prems(1) by simp
  have d1: "nodes w1 d = Some Dir" using Cons.prems(2) by (simp add: w1_def p_def)
  have IH: "(generate_all e cs d w1 = Inr w') =
     ((\<forall>c\<in>set cs. nodes w1 (d @ [cfg_name c]) \<noteq> Some Dir \<and> ok c)
      \<and> w' = w1\<lparr>nodes := fold (\<lambda>c m. m(d @ [cfg_name c] \<mapsto> Image_file ''PNG'' (img c))) cs (nodes w1),
                 stdout := stdout w1 @ map (\<lambda>c. Generated (cfg_name c) (cfg_size c)) cs\<rparr>)"
    unfolding ok_def by (rule Cons.IH[OF rest d1])
  have n1: "nodes w1 q = (if q = p then Some (Image_file ''PNG'' (img c)) else nodes w q)" for q
    by (simp add: w1_def)
  have fin: "w1\<lparr>nodes := fold (\<lambda>c m. m(d @ [cfg_name c] \<mapsto> Image_file ''PNG'' (img c))) cs (nodes w1),
                 stdout := stdout w1 @ map (\<lambda>c. Generated (cfg_name c) (cfg_size c)) cs\<rparr>
      = w\<lparr>nodes := fold (\<lambda>c m. m(d @ [cfg_name c] \<mapsto> Image_file ''PNG'' (img c))) (c # cs) (nodes w),
                     stdout := stdout w @ map (\<lambda>c. Generated (cfg_name c) (cfg_size c)) (c # cs)\<rparr>"
    by (simp add: w1_def p_def m_def)
  have step: "(generate_icon e c d w = Inr x) =
          (nodes w p \<noteq> Some Dir \<and> ok c \<and> x = w1)" for x
    unfolding generate_icon_Inr_iff[OF c Cons.prems(2)] w1_def p_def m_def ok_def by blast
  have "(generate_all e (c # cs) d w = Inr w') =
          (nodes w p \<noteq> Some Dir \<and> ok c \<and> generate_all e cs d w1 = Inr w')"
    unfolding generate_all.simps bind_Inr_iff step by blast
  also have "\<dots> = ((nodes w p \<noteq> Some Dir \<and> ok c
        \<and> (\<forall>c\<in>set cs. nodes w1 (d @ [cfg_name c]) \<noteq> Some Dir \<and> ok c))
        \<and> w' = w\<lparr>nodes := fold (\<lambda>c m. m(d @ [cfg_name c] \<mapsto> Image_file ''PNG'' (img c))) (c # cs) (nodes w),
                     stdout := stdout w @ map (\<lambda>c. Generated (cfg_name c) (cfg_size c)) (c # cs)\<rparr>)"
    unfolding IH fin by blast
  also have "(nodes w p \<noteq> Some Dir \<and> ok c
        \<and> (\<forall>c\<in>set cs. nodes w1 (d @ [cfg_name c]) \<noteq> Some Dir \<and> ok c)) =
      (\<forall>c\<in>set (c # cs). nodes w (d @ [cfg_name c]) \<noteq> Some Dir \<and> ok c)"
  proof (cases "nodes w p = Some Dir")
    case True
    thus ?thesis by (simp add: p_def)
  next
    case False
    have "(nodes w1 q \<noteq> Some Dir) = (nodes w q \<noteq> Some Dir)" for q
      using False by (cases "q = p") (simp_all add: n1)
    thus ?thesis by (simp add: p_def)
  qed
  finally show ?case unfolding ok_def by blast
qed

text \<open>
  A run of \<open>main\<close> returns exactly when all its input and output succeeds, and then
  the world is the initial one with the icons directory, the five files and the nine
  lines printed.
\<close>

lemma ex_step:
  assumes "\<And>x. (m = Inr x) = (A \<and> x = v)"
  shows "(\<exists>x. m = Inr x \<and> P x) = (A \<and> P v)"
  by (simp add: assms)

lemma main_Inr_iff:
  assumes "\<forall>c\<in>set ICON_CONFIGS. icon_image e (cfg_size c) = Inr (img c) \<and> width (img c) \<noteq> 0
             \<and> height (img c) \<noteq> 0"
  shows "(main e script_file w = Inr w') =
           (io_succeeds e script_file w
            \<and> w' = w\<lparr>nodes := fold (\<lambda>c m. m(icons_dir script_file @ [cfg_name c] \<mapsto> Image_file ''PNG'' (img c)))
                                ICON_CONFIGS ((nodes w)(icons_dir script_file \<mapsto> Dir)),
                     stdout := stdout w @ run_messages (icons_dir script_file)\<rparr>)"
proof -
  define d where "d = icons_dir script_file"
  define se where "se = stdout_error e"
  define mk where "mk = (nodes w d = Some Dir
        \<or> nodes w d = None \<and> nodes w (parent d) = Some Dir \<and> os_error e d = None)"
  define ok where "ok = (\<lambda>c::icon_config. os_error e (d @ [cfg_name c]) = None
                \<and> se (Generated (cfg_name c) (cfg_size c)) = None)"
  define w1 where "w1 = w\<lparr>nodes := (nodes w)(d \<mapsto> Dir)\<rparr>"
  define w2 where "w2 = w1\<lparr>stdout := stdout w1 @ [Icons_directory d]\<rparr>"
  define w3 where "w3 = w2\<lparr>stdout := stdout w2 @ [Generating]\<rparr>"
  define w4 where "w4 = w3\<lparr>nodes := fold (\<lambda>c m. m(d @ [cfg_name c] \<mapsto> Image_file ''PNG'' (img c))) ICON_CONFIGS (nodes w3),
                     stdout := stdout w3 @ map (\<lambda>c. Generated (cfg_name c) (cfg_size c)) ICON_CONFIGS\<rparr>"
  define w5 where "w5 = w4\<lparr>stdout := stdout w4 @ [All_generated]\<rparr>"
  define w6 where "w6 = w5\<lparr>stdout := stdout w5 @ [Location d]\<rparr>"
  have d3: "nodes w3 d = Some Dir" by (simp add: w3_def w2_def w1_def)
  have n3: "nodes w3 (d @ [x]) = nodes w (d @ [x])" for x
    by (simp add: w3_def w2_def w1_def)
  have s1: "(mkdir e d w = Inr x) = (mk \<and> x = w1)" for x
    unfolding mkdir_Inr_iff mk_def w1_def by (rule refl)
  have s2: "(print e (Icons_directory d) w1 = Inr x) = (se (Icons_directory d) = None \<and> x = w2)" for x
    unfolding print_Inr_iff w2_def se_def by (rule refl)
  have s3: "(print e Generating w2 = Inr x) = (se Generating = None \<and> x = w3)" for x
    unfolding print_Inr_iff w3_def se_def by (rule refl)
  have s4: "(generate_all e ICON_CONFIGS d w3 = Inr x) =
       ((\<forall>c\<in>set ICON_CONFIGS. nodes w (d @ [cfg_name c]) \<noteq> Some Dir \<and> ok c) \<and> x = w4)" for x
    unfolding generate_all_Inr_iff[OF assms d3] n3 w4_def ok_def se_def by (rule refl)
  have s5: "(print e All_generated w4 = Inr x) = (se All_generated = None \<and> x = w5)" for x
    unfolding print_Inr_iff w5_def se_def by (rule refl)
  have s6: "(print e (Location d) w5 = Inr x) = (se (Location d) = None \<and> x = w6)" for x
    unfolding print_Inr_iff w6_def se_def by (rule refl)
  have "(main e script_file w = Inr w') =
      (mk \<and> se (Icons_directory d) = None \<and> se Generating = None
        \<and> (\<forall>c\<in>set ICON_CONFIGS. nodes w (d @ [cfg_name c]) \<noteq> Some Dir \<and> ok c)
        \<and> se All_generated = None \<and> se (Location d) = None \<and> w' = w6)"
    unfolding main_def Let_def d_def[symmetric] bind_Inr_iff
    by (simp only: ex_step[of "mkdir e d w", OF s1] ex_step[of "print e (Icons_directory d) w1", OF s2]
        ex_step[of "print e Generating w2", OF s3] ex_step[of "generate_all e ICON_CONFIGS d w3", OF s4]
        ex_step[of "print e All_generated w4", OF s5] s6)
  also have "\<dots> = ((mk \<and> se (Icons_directory d) = None \<and> se Generating = None
        \<and> (\<forall>c\<in>set ICON_CONFIGS. nodes w (d @ [cfg_name c]) \<noteq> Some Dir \<and> ok c)
        \<and> se All_generated = None \<and> se (Location d) = None) \<and> w' = w6)"
    by blast
  also have "(mk \<and> se (Icons_directory d) = None \<and> se Generating = None
        \<and> (\<forall>c\<in>set ICON_CONFIGS. nodes w (d @ [cfg_name c]) \<noteq> Some Dir \<and> ok c)
        \<and> se All_generated = None \<and> se (Location d) = None) = io_succeeds e script_file w"
  proof -
    have msgs: "(\<forall>m\<in>set (run_messages d). se m = None) =
        (se (Icons_directory d) = None \<and> se Generating = None
         \<and> (\<forall>c\<in>set ICON_CONFIGS. se (Generated (cfg_name c) (cfg_size c)) = None)
         \<and> se All_generated = None \<and> se (Location d) = None)"
      unfolding run_messages_def by (simp add: ball_Un, blast)
    have "io_succeeds e script_file w =
        (mk \<and> (\<forall>m\<in>set (run_messages d). se m = None)
         \<and> (\<forall>c\<in>set ICON_CONFIGS. nodes w (d @ [cfg_name c]) \<noteq> Some Dir
               \<and> os_error e (d @ [cfg_name c]) = None))"
      unfolding io_succeeds_def Let_def d_def[symmetric] mk_def se_def by (rule refl)
    thus ?thesis unfolding msgs ok_def by blast
  qed
  also have "w6 = w\<lparr>nodes := fold (\<lambda>c m. m(d @ [cfg_name c] \<mapsto> Image_file ''PNG'' (img c)))
                                ICON_CONFIGS ((nodes w)(d \<mapsto> Dir)),
                     stdout := stdout w @ run_messages d\<rparr>"
    by (simp add: w6_def w5_def w4_def w3_def w2_def w1_def run_messages_def)
  finally show ?thesis unfolding d_def .
qed

lemma config_images:
  "\<exists>img. \<forall>c\<in>set ICON_CONFIGS.
      icon_image e (cfg_size c) = Inr (img c)
      \<and> (\<exists>canvas. draw_text e canvas ''TB'' (cfg_size c) = Inr (img c))
      \<and> width (img c) = cfg_size c \<and> height (img c) = cfg_size c"
proof -
  have "\<forall>c\<in>set ICON_CONFIGS. \<exists>i. icon_image e (cfg_size c) = Inr i
      \<and> (\<exists>canvas. draw_text e canvas ''TB'' (cfg_size c) = Inr i)
      \<and> width i = cfg_size c \<and> height i = cfg_size c"
  proof
    fix c assume "c \<in> set ICON_CONFIGS"
    hence "0 < cfg_size c" "cfg_size c < 2 ^ 48" by (auto simp: ICON_CONFIGS_def)
    from icon_image_result[OF this, of e]
    show "\<exists>i. icon_image e (cfg_size c) = Inr i
      \<and> (\<exists>canvas. draw_text e canvas ''TB'' (cfg_size c) = Inr i)
      \<and> width i = cfg_size c \<and> height i = cfg_size c" by blast
  qed
  thus ?thesis by (rule bchoice)
qed

lemma config_sizes: "c \<in> set ICON_CONFIGS \<Longrightarrow> cfg_size c \<noteq> 0"
  by (auto simp: ICON_CONFIGS_def)

lemma main_succeeds:
  assumes "io_succeeds e script_file w"
  shows "\<exists>i16 i32 i180 i192 i512.
     main e script_file w =
       Inr (w\<lparr>nodes := (nodes w)
                (icons_dir script_file \<mapsto> Dir,
                 icons_dir script_file @ [''favicon-16.png''] \<mapsto> Image_file ''PNG'' i16,
                 icons_dir script_file @ [''favicon-32.png''] \<mapsto> Image_file ''PNG'' i32,
                 icons_dir script_file @ [''apple-touch-icon.png''] \<mapsto> Image_file ''PNG'' i180,
                 icons_dir script_file @ [''icon-192.png''] \<mapsto> Image_file ''PNG'' i192,
                 icons_dir script_file @ [''icon-512.png''] \<mapsto> Image_file ''PNG'' i512),
              stdout := stdout w @
                [Icons_directory (icons_dir script_file), Generating,
                 Generated ''favicon-16.png'' 16, Generated ''favicon-32.png'' 32,
                 Generated ''apple-touch-icon.png'' 180, Generated ''icon-192.png'' 192,
                 Generated ''icon-512.png'' 512,
                 All_generated, Location (icons_dir script_file)]\<rparr>)
     \<and> icon_image e 16 = Inr i16 \<and> icon_image e 32 = Inr i32 \<and> icon_image e 180 = Inr i180
     \<and> icon_image e 192 = Inr i192 \<and> icon_image e 512 = Inr i512
     \<and> (\<exists>canvas. draw_text e canvas ''TB'' 16 = Inr i16)
     \<and> (\<exists>canvas. draw_text e canvas ''TB'' 32 = Inr i32)
     \<and> (\<exists>canvas. draw_text e canvas ''TB'' 180 = Inr i180)
     \<and> (\<exists>canvas. draw_text e canvas ''TB'' 192 = Inr i192)
     \<and> (\<exists>canvas. draw_text e canvas ''TB'' 512 = Inr i512)
     \<and> width i16 = 16 \<and> height i16 = 16 \<and> width i32 = 32 \<and> height i32 = 32
     \<and> width i180 = 180 \<and> height i180 = 180 \<and> width i192 = 192 \<and> height i192 = 192
     \<and> width i512 = 512 \<and> height i512 = 512"
proof -
  define d where "d = icons_dir script_file"
  from config_images[of e] obtain img where
    img: "\<forall>c\<in>set ICON_CONFIGS.
      icon_image e (cfg_size c) = Inr (img c)
      \<and> (\<exists>canvas. draw_text e canvas ''TB'' (cfg_size c) = Inr (img c))
      \<and> width (img c) = cfg_size c \<and> height (img c) = cfg_size c" ..
  have nz: "\<forall>c\<in>set ICON_CONFIGS. icon_image e (cfg_size c) = Inr (img c) \<and> width (img c) \<noteq> 0
             \<and> height (img c) \<noteq> 0"
    using img config_sizes by simp
  define c16 where "c16 = \<lparr>cfg_size = 16, cfg_name = ''favicon-16.png''\<rparr>"
  define c32 where "c32 = \<lparr>cfg_size = 32, cfg_name = ''favicon-32.png''\<rparr>"
  define c180 where "c180 = \<lparr>cfg_size = 180, cfg_name = ''apple-touch-icon.png''\<rparr>"
  define c192 where "c192 = \<lparr>cfg_size = 192, cfg_name = ''icon-192.png''\<rparr>"
  define c512 where "c512 = \<lparr>cfg_size = 512, cfg_name = ''icon-512.png''\<rparr>"
  have cs: "ICON_CONFIGS = [c16, c32, c180, c192, c512]"
    by (simp add: ICON_CONFIGS_def c16_def c32_def c180_def c192_def c512_def)
  have "main e script_file w =
      Inr (w\<lparr>nodes := fold (\<lambda>c m. m(d @ [cfg_name c] \<mapsto> Image_file ''PNG'' (img c)))
                                ICON_CONFIGS ((nodes w)(d \<mapsto> Dir)),
                     stdout := stdout w @ run_messages d\<rparr>)"
    using main_Inr_iff[OF nz, of script_file w] assms unfolding d_def by simp
  also have "fold (\<lambda>c m. m(d @ [cfg_name c] \<mapsto> Image_file ''PNG'' (img c)))
                                ICON_CONFIGS ((nodes w)(d \<mapsto> Dir)) =
      (nodes w)(d \<mapsto> Dir,
                 d @ [''favicon-16.png''] \<mapsto> Image_file ''PNG'' (img c16),
                 d @ [''favicon-32.png''] \<mapsto> Image_file ''PNG'' (img c32),
                 d @ [''apple-touch-icon.png''] \<mapsto> Image_file ''PNG'' (img c180),
                 d @ [''icon-192.png''] \<mapsto> Image_file ''PNG'' (img c192),
                 d @ [''icon-512.png''] \<mapsto> Image_file ''PNG'' (img c512))"
    unfolding cs by (simp add: c16_def c32_def c180_def c192_def c512_def)
  also have "run_messages d =
                [Icons_directory d, Generating,
                 Generated ''favicon-16.png'' 16, Generated ''favicon-32.png'' 32,
                 Generated ''apple-touch-icon.png'' 180, Generated ''icon-192.png'' 192,
                 Generated ''icon-512.png'' 512,
                 All_generated, Location d]"
    by (simp add: run_messages_def ICON_CONFIGS_def)
  finally have m: "main e script_file w =
       Inr (w\<lparr>nodes := (nodes w)
                (d \<mapsto> Dir,
                 d @ [''favicon-16.png''] \<mapsto> Image_file ''PNG'' (img c16),
                 d @ [''favicon-32.png''] \<mapsto> Image_file ''PNG'' (img c32),
                 d @ [''apple-touch-icon.png''] \<mapsto> Image_file ''PNG'' (img c180),
                 d @ [''icon-192.png''] \<mapsto> Image_file ''PNG'' (img c192),
                 d @ [''icon-512.png''] \<mapsto> Image_file ''PNG'' (img c512)),
              stdout := stdout w @
                [Icons_directory d, Generating,
                 Generated ''favicon-16.png'' 16, Generated ''favicon-32.png'' 32,
                 Generated ''apple-touch-icon.png'' 180, Generated ''icon-192.png'' 192,
                 Generated ''icon-512.png'' 512,
                 All_generated, Location d]\<rparr>)" .
  have i: "icon_image e 16 = Inr (img c16) \<and> (\<exists>canvas. draw_text e canvas ''TB'' 16 = Inr (img c16))
        \<and> width (img c16) = 16 \<and> height (img c16) = 16"
      "icon_image e 32 = Inr (img c32) \<and> (\<exists>canvas. draw_text e canvas ''TB'' 32 = Inr (img c32))
        \<and> width (img c32) = 32 \<and> height (img c32) = 32"
      "icon_image e 180 = Inr (img c180) \<and> (\<exists>canvas. draw_text e canvas ''TB'' 180 = Inr (img c180))
        \<and> width (img c180) = 180 \<and> height (img c180) = 180"
      "icon_image e 192 = Inr (img c192) \<and> (\<exists>canvas. draw_text e canvas ''TB'' 192 = Inr (img c192))
        \<and> width (img c192) = 192 \<and> height (img c192) = 192"
      "icon_image e 512 = Inr (img c512) \<and> (\<exists>canvas. draw_text e canvas ''TB'' 512 = Inr (img c512))
        \<and> width (img c512) = 512 \<and> height (img c512) = 512"
    using img unfolding cs by (simp_all add: c16_def c32_def c180_def c192_def c512_def)
  show ?thesis
    unfolding d_def[symmetric] using m i by blast
qed

lemma main_fails:
  assumes "\<not> io_succeeds e script_file w"
  shows "\<exists>err. main e script_file w = Inl err"
proof -
  from config_images[of e] obtain img where
    img: "\<forall>c\<in>set ICON_CONFIGS.
      icon_image e (cfg_size c) = Inr (img c)
      \<and> (\<exists>canvas. draw_text e canvas ''TB'' (cfg_size c) = Inr (img c))
      \<and> width (img c) = cfg_size c \<and> height (img c) = cfg_size c" ..
  have nz: "\<forall>c\<in>set ICON_CONFIGS. icon_image e (cfg_size c) = Inr (img c) \<and> width (img c) \<noteq> 0
             \<and> height (img c) \<noteq> 0"
    using img config_sizes by simp
  have "\<forall>w'. main e script_file w \<noteq> Inr w'"
    using main_Inr_iff[OF nz, of script_file w] assms by simp
  thus ?thesis by (simp only: not_Inr_Inl)
qed


lemma example_io: "io_succeeds env0 script0 world0"
  by (simp add: io_succeeds_def Let_def icons_dir_def parent_def script0_def world0_def env0_def
      ICON_CONFIGS_def)

lemma example_dir: "icons_dir script0 = [''wwwroot'', ''icons'']"
  by (simp add: icons_dir_def parent_def script0_def)

text \<open>
  C1, as amended. \<open>ICON_CONFIGS\<close> holds the five fixed configurations. In every run of
  \<open>main\<close> in which the icons directory is there or can be made, none of the five
  targets is a directory or refused by the operating system, and the console takes
  every line, \<open>main\<close> returns; it has then gone through the five configurations in
  order, and the world is the initial one with the icons directory and exactly the five
  files \<open>favicon-16.png\<close>, \<open>favicon-32.png\<close>, \<open>apple-touch-icon.png\<close>, \<open>icon-192.png\<close>
  and \<open>icon-512.png\<close> in it, each saved as PNG from the picture built for its size, of
  16, 32, 180, 192 and 512 pixels in width and height, and with the nine lines printed.
  In every other run \<open>main\<close> raises an exception.
\<close>

theorem main_writes_five_icons:
  "map (\<lambda>c. (cfg_size c, cfg_name c)) ICON_CONFIGS =
     [(16, ''favicon-16.png''), (32, ''favicon-32.png''), (180, ''apple-touch-icon.png''),
      (192, ''icon-192.png''), (512, ''icon-512.png'')]
   \<and> (io_succeeds e script_file w \<longrightarrow>
       (\<exists>i16 i32 i180 i192 i512.
          main e script_file w =
            Inr (w\<lparr>nodes := (nodes w)
                     (icons_dir script_file \<mapsto> Dir,
                      icons_dir script_file @ [''favicon-16.png''] \<mapsto> Image_file ''PNG'' i16,
                      icons_dir script_file @ [''favicon-32.png''] \<mapsto> Image_file ''PNG'' i32,
                      icons_dir script_file @ [''apple-touch-icon.png''] \<mapsto> Image_file ''PNG'' i180,
                      icons_dir script_file @ [''icon-192.png''] \<mapsto> Image_file ''PNG'' i192,
                      icons_dir script_file @ [''icon-512.png''] \<mapsto> Image_file ''PNG'' i512),
                   stdout := stdout w @
                     [Icons_directory (icons_dir script_file), Generating,
                      Generated ''favicon-16.png'' 16, Generated ''favicon-32.png'' 32,
                      Generated ''apple-touch-icon.png'' 180, Generated ''icon-192.png'' 192,
                      Generated ''icon-512.png'' 512,
                      All_generated, Location (icons_dir script_file)]\<rparr>)
          \<and> icon_image e 16 = Inr i16 \<and> icon_image e 32 = Inr i32
          \<and> icon_image e 180 = Inr i180 \<and> icon_image e 192 = Inr i192
          \<and> icon_image e 512 = Inr i512
          \<and> width i16 = 16 \<and> height i16 = 16 \<and> width i32 = 32 \<and> height i32 = 32
          \<and> width i180 = 180 \<and> height i180 = 180 \<and> width i192 = 192 \<and> height i192 = 192
          \<and> width i512 = 512 \<and> height i512 = 512))
   \<and> (\<not> io_succeeds e script_file w \<longrightarrow> (\<exists>err. main e script_file w = Inl err))"
proof (intro conjI impI)
  show "map (\<lambda>c. (cfg_size c, cfg_name c)) ICON_CONFIGS =
     [(16, ''favicon-16.png''), (32, ''favicon-32.png''), (180, ''apple-touch-icon.png''),
      (192, ''icon-192.png''), (512, ''icon-512.png'')]"
    by (simp add: ICON_CONFIGS_def)
next
  assume "io_succeeds e script_file w"
  from main_succeeds[OF this]
  show "\<exists>i16 i32 i180 i192 i512.
          main e script_file w =
            Inr (w\<lparr>nodes := (nodes w)
                     (icons_dir script_file \<mapsto> Dir,
                      icons_dir script_file @ [''favicon-16.png''] \<mapsto> Image_file ''PNG'' i16,
                      icons_dir script_file @ [''favicon-32.png''] \<mapsto> Image_file ''PNG'' i32,
                      icons_dir script_file @ [''apple-touch-icon.png''] \<mapsto> Image_file ''PNG'' i180,
                      icons_dir script_file @ [''icon-192.png''] \<mapsto> Image_file ''PNG'' i192,
                      icons_dir script_file @ [''icon-512.png''] \<mapsto> Image_file ''PNG'' i512),
                   stdout := stdout w @
                     [Icons_directory (icons_dir script_file), Generating,
                      Generated ''favicon-16.png'' 16, Generated ''favicon-32.png'' 32,
                      Generated ''apple-touch-icon.png'' 180, Generated ''icon-192.png'' 192,
                      Generated ''icon-512.png'' 512,
                      All_generated, Location (icons_dir script_file)]\<rparr>)
          \<and> icon_image e 16 = Inr i16 \<and> icon_image e 32 = Inr i32
          \<and> icon_image e 180 = Inr i180 \<and> icon_image e 192 = Inr i192
          \<and> icon_image e 512 = Inr i512
          \<and> width i16 = 16 \<and> height i16 = 16 \<and> width i32 = 32 \<and> height i32 = 32
          \<and> width i180 = 180 \<and> height i180 = 180 \<and> width i192 = 192 \<and> height i192 = 192
          \<and> width i512 = 512 \<and> height i512 = 512"
    by blast
next
  assume "\<not> io_succeeds e script_file w"
  thus "\<exists>err. main e script_file w = Inl err" by (rule main_fails)
qed

theorem main_writes_five_icons_witness:
  "io_succeeds env0 script0 world0
   \<and> (\<exists>w' img. main env0 script0 world0 = Inr w'
        \<and> dom (nodes w') = dom (nodes world0) \<union>
             {[''wwwroot'', ''icons''],
              [''wwwroot'', ''icons'', ''favicon-16.png''], [''wwwroot'', ''icons'', ''favicon-32.png''],
              [''wwwroot'', ''icons'', ''apple-touch-icon.png''], [''wwwroot'', ''icons'', ''icon-192.png''],
              [''wwwroot'', ''icons'', ''icon-512.png'']}
        \<and> nodes w' [''wwwroot'', ''icons'', ''icon-512.png''] = Some (Image_file ''PNG'' img)
        \<and> width img = 512 \<and> height img = 512 \<and> length (stdout w') = 9)
   \<and> \<not> io_succeeds env0 script0 world_file
   \<and> (\<exists>err. main env0 script0 world_file = Inl err)"
proof -
  note d = example_dir
  from main_writes_five_icons[of env0 script0 world0] example_io
  obtain i16 i32 i180 i192 i512 where
    m: "main env0 script0 world0 =
            Inr (world0\<lparr>nodes := (nodes world0)
                     (icons_dir script0 \<mapsto> Dir,
                      icons_dir script0 @ [''favicon-16.png''] \<mapsto> Image_file ''PNG'' i16,
                      icons_dir script0 @ [''favicon-32.png''] \<mapsto> Image_file ''PNG'' i32,
                      icons_dir script0 @ [''apple-touch-icon.png''] \<mapsto> Image_file ''PNG'' i180,
                      icons_dir script0 @ [''icon-192.png''] \<mapsto> Image_file ''PNG'' i192,
                      icons_dir script0 @ [''icon-512.png''] \<mapsto> Image_file ''PNG'' i512),
                   stdout := stdout world0 @
                     [Icons_directory (icons_dir script0), Generating,
                      Generated ''favicon-16.png'' 16, Generated ''favicon-32.png'' 32,
                      Generated ''apple-touch-icon.png'' 180, Generated ''icon-192.png'' 192,
                      Generated ''icon-512.png'' 512,
                      All_generated, Location (icons_dir script0)]\<rparr>)"
    and s: "width i512 = 512" "height i512 = 512"
    by blast
  define w' where "w' = world0\<lparr>nodes := (nodes world0)
                     (icons_dir script0 \<mapsto> Dir,
                      icons_dir script0 @ [''favicon-16.png''] \<mapsto> Image_file ''PNG'' i16,
                      icons_dir script0 @ [''favicon-32.png''] \<mapsto> Image_file ''PNG'' i32,
                      icons_dir script0 @ [''apple-touch-icon.png''] \<mapsto> Image_file ''PNG'' i180,
                      icons_dir script0 @ [''icon-192.png''] \<mapsto> Image_file ''PNG'' i192,
                      icons_dir script0 @ [''icon-512.png''] \<mapsto> Image_file ''PNG'' i512),
                   stdout := stdout world0 @
                     [Icons_directory (icons_dir script0), Generating,
                      Generated ''favicon-16.png'' 16, Generated ''favicon-32.png'' 32,
                      Generated ''apple-touch-icon.png'' 180, Generated ''icon-192.png'' 192,
                      Generated ''icon-512.png'' 512,
                      All_generated, Location (icons_dir script0)]\<rparr>"
  have 1: "main env0 script0 world0 = Inr w'" using m unfolding w'_def .
  have 2: "dom (nodes w') = dom (nodes world0) \<union>
             {[''wwwroot'', ''icons''],
              [''wwwroot'', ''icons'', ''favicon-16.png''], [''wwwroot'', ''icons'', ''favicon-32.png''],
              [''wwwroot'', ''icons'', ''apple-touch-icon.png''], [''wwwroot'', ''icons'', ''icon-192.png''],
              [''wwwroot'', ''icons'', ''icon-512.png'']}"
    by (auto simp: w'_def d split: if_splits)
  have 3: "nodes w' [''wwwroot'', ''icons'', ''icon-512.png''] = Some (Image_file ''PNG'' i512)"
    by (simp add: w'_def d)
  have 4: "length (stdout w') = 9" by (simp add: w'_def world0_def)
  have 5: "\<not> io_succeeds env0 script0 world_file"
    by (simp add: io_succeeds_def Let_def d world_file_def world0_def)
  from 5 main_writes_five_icons[of env0 script0 world_file]
  have 6: "\<exists>err. main env0 script0 world_file = Inl err" by blast
  show ?thesis using example_io 1 2 3 4 5 6 s by blast
qed

text \<open>
  C1 as stated fails: where a file named \<open>icons\<close> stands in the place of the icons
  directory, \<open>icons_dir.mkdir(exist_ok=True)\<close> raises \<open>FileExistsError\<close> and the run ends
  before any icon is made.
\<close>

theorem main_fails_on_file:
  "nodes world_file (icons_dir script0) = Some Other_file
   \<and> main env0 script0 world_file = Inl FileExistsError"
  by (simp add: main_def Let_def example_dir mkdir_def world_file_def bind_Inl)




end
